theory Spec2Isabelle
  imports Complex_Main
begin

section \<open>The data of \<^verbatim>\<open>script.js\<close>\<close>

text \<open>
  The repository is one function, \<^verbatim>\<open>getLearnerData(courseInfo, assignmentGroup,
  learnerSubmissions)\<close>, and example data it is run on. Its numbers are taken as real
  numbers, as the specification's numeric semantics says; \<^verbatim>\<open>NaN\<close>, the infinities and the
  rounding of JavaScript doubles are outside this development. Identifiers are the integer
  numbers of the repository's data. A property that is absent reads as \<^verbatim>\<open>undefined\<close> in
  JavaScript and is \<open>None\<close> here.

  A date property holds the time value (milliseconds) that \<^verbatim>\<open>new Date(property)\<close>
  produces, \<open>None\<close> for an invalid date, whose time value is \<^verbatim>\<open>NaN\<close>.

  Below the three arguments the data has the types of the specification's data model:
  \<^verbatim>\<open>assignments\<close> is an array of assignment objects with a numeric
  \<^verbatim>\<open>points_possible\<close> (of the test of line 29, the comparison with 0 remains), and a
  \<^verbatim>\<open>submission\<close> property that is truthy is an object with a date and a numeric score.
\<close>

type_synonym ident = int

type_synonym time_value = "int option"

record courseInfo =
  id_course :: "ident option"

record assignment =
  id_assignment :: ident
  due_at :: time_value
  points_possible :: real

record assignmentGroup =
  course_id :: "ident option"
  assignments :: "assignment list"

record submitted =
  submitted_at :: time_value
  score :: real

record learnerSubmission =
  learner_id :: "ident option"
  assignment_id :: "ident option"
  submission :: "submitted option"

text \<open>
  The three arguments are arbitrary JavaScript values. What the function asks of the first
  two is \<^verbatim>\<open>typeof x\<close>, and then their properties; of the third, \<^verbatim>\<open>Array.isArray\<close>.
  \<open>NotObject\<close> stands for every value whose \<^verbatim>\<open>typeof\<close> is not \<^verbatim>\<open>'object'\<close>
  (\<^verbatim>\<open>undefined\<close>, booleans, numbers, strings), \<open>NullValue\<close> for \<^verbatim>\<open>null\<close>, whose
  \<^verbatim>\<open>typeof\<close> is \<^verbatim>\<open>'object'\<close> and whose properties cannot be read.
\<close>

datatype 'a object_arg = NotObject | NullValue | Object 'a

datatype 'a array_arg = NotArray | Array "'a list"

text \<open>
  An element of the submissions array is any JavaScript value. \<open>Nullish\<close> is \<^verbatim>\<open>null\<close> or
  \<^verbatim>\<open>undefined\<close>, of which no property can be read. Every other element is given by the
  three properties the loop reads from it; a boolean, a number or a string has none of them.
\<close>

datatype 'a element = Nullish | Element 'a

text \<open>
  The function throws \<^verbatim>\<open>Error\<close> objects told apart by their message:
  \<open>InvalidInputType\<close> is \<^verbatim>\<open>'Invalid input data types'\<close> (line 13), \<open>GroupMismatch\<close> is
  \<^verbatim>\<open>'Invalid input: AssignmentGroup does not belong to the specified course.'\<close> (line 19),
  \<open>InvalidAssignment i\<close> is \<^verbatim>\<open>'Invalid points_possible for assignment i'\<close> (line 30).
  \<open>TypeError\<close> is what the engine throws when a property of \<^verbatim>\<open>null\<close> or
  \<^verbatim>\<open>undefined\<close> is read.
\<close>

datatype error = InvalidInputType | GroupMismatch | InvalidAssignment ident | TypeError

text \<open>The console: \<^verbatim>\<open>console.warn\<close> of line 42 and \<^verbatim>\<open>console.error\<close> of line 113.\<close>

datatype console_line = Warn learnerSubmission | ConsoleError error

text \<open>The accumulator of lines 51 to 56 and the output record of lines 102 to 106.\<close>

record learner =
  id_learner :: ident
  totalScore :: real
  totalPossible :: real
  assignmentScores :: "ident \<rightharpoonup> real"

record learnerSummary =
  id_summary :: ident
  avg :: real
  scores :: "ident \<rightharpoonup> real"

text \<open>
  \<^verbatim>\<open>learnerData\<close> is a \<^verbatim>\<open>Map\<close>; it iterates in insertion order, so it is a list of
  pairs in which a key occurs once.
\<close>

type_synonym learner_map = "(ident \<times> learner) list"

section \<open>JavaScript's tests\<close>

definition typeof_object :: "'a object_arg \<Rightarrow> bool" where
  "typeof_object v = (case v of NotObject \<Rightarrow> False | NullValue \<Rightarrow> True | Object x \<Rightarrow> True)"

definition isArray :: "'a array_arg \<Rightarrow> bool" where
  "isArray v = (case v of NotArray \<Rightarrow> False | Array xs \<Rightarrow> True)"

text \<open>Truthiness: \<^verbatim>\<open>undefined\<close> and the number 0 are falsy, every other number is truthy.\<close>

definition truthy_id :: "ident option \<Rightarrow> bool" where
  "truthy_id v = (case v of None \<Rightarrow> False | Some n \<Rightarrow> n \<noteq> 0)"

definition truthy_num :: "real option \<Rightarrow> bool" where
  "truthy_num v = (case v of None \<Rightarrow> False | Some x \<Rightarrow> x \<noteq> 0)"

text \<open>\<^verbatim>\<open>a > b\<close> on two dates compares their time values and is false when one is \<^verbatim>\<open>NaN\<close>.\<close>

definition date_gt :: "time_value \<Rightarrow> time_value \<Rightarrow> bool" where
  "date_gt a b = (case a of None \<Rightarrow> False | Some x \<Rightarrow> (case b of None \<Rightarrow> False | Some y \<Rightarrow> y < x))"

section \<open>The function\<close>

text \<open>Lines 26 to 33: the assignment map, a later assignment replacing an earlier one of the same id.\<close>

fun index_assignments ::
  "(ident \<rightharpoonup> assignment) \<Rightarrow> assignment list \<Rightarrow> error + (ident \<rightharpoonup> assignment)" where
  "index_assignments assignmentMap [] = Inr assignmentMap"
| "index_assignments assignmentMap (a # rest) =
     (if points_possible a < 0 then Inl (InvalidAssignment (id_assignment a))
      else index_assignments (assignmentMap(id_assignment a \<mapsto> a)) rest)"

text \<open>Line 41.\<close>

definition malformed :: "learnerSubmission \<Rightarrow> bool" where
  "malformed sub =
     (\<not> truthy_id (learner_id sub) \<or> \<not> truthy_id (assignment_id sub) \<or> submission sub = None)"

text \<open>Lines 50 to 57.\<close>

definition new_learner :: "ident \<Rightarrow> learner" where
  "new_learner learnerId =
     \<lparr>id_learner = learnerId, totalScore = 0, totalPossible = 0, assignmentScores = Map.empty\<rparr>"

definition has_learner :: "(ident \<times> 'a) list \<Rightarrow> ident \<Rightarrow> bool" where
  "has_learner learnerData learnerId = (learnerId \<in> fst ` set learnerData)"

definition ensure_learner :: "ident \<Rightarrow> learner_map \<Rightarrow> learner_map" where
  "ensure_learner learnerId learnerData =
     (if \<not> has_learner learnerData learnerId
      then learnerData @ [(learnerId, new_learner learnerId)]
      else learnerData)"

text \<open>
  \<^verbatim>\<open>learner\<close> of line 59 is the object stored in the map, and the assignments of lines 88
  to 94 change that object: here, the entry of the key.
\<close>

fun modify_learner :: "ident \<Rightarrow> (learner \<Rightarrow> learner) \<Rightarrow> learner_map \<Rightarrow> learner_map" where
  "modify_learner learnerId f [] = []"
| "modify_learner learnerId f ((k, l) # rest) =
     (if k = learnerId then (k, f l) # rest else (k, l) # modify_learner learnerId f rest)"

text \<open>Lines 60 to 69: the assignment a submission is scored against, \<open>None\<close> where a \<^verbatim>\<open>continue\<close> is taken.\<close>

definition scored_assignment ::
  "(ident \<rightharpoonup> assignment) \<Rightarrow> int \<Rightarrow> ident \<Rightarrow> assignment option" where
  "scored_assignment assignmentMap currentDate assignmentId =
     (case assignmentMap assignmentId of
        None \<Rightarrow> None
      | Some a \<Rightarrow>
          if date_gt (due_at a) (Some currentDate) then None
          else if points_possible a = 0 then None
          else Some a)"

text \<open>Lines 72 to 77.\<close>

definition effective_score :: "assignment \<Rightarrow> submitted \<Rightarrow> real" where
  "effective_score a s =
     (if date_gt (submitted_at s) (due_at a)
      then max 0 (score s - 0.1 * points_possible a)
      else score s)"

text \<open>
  Lines 80 to 95. \<^verbatim>\<open>learner.assignmentScores[assignmentId]\<close> is \<^verbatim>\<open>undefined\<close> or a number;
  \<^verbatim>\<open>!x\<close> holds for \<^verbatim>\<open>undefined\<close> and for 0.
\<close>

definition record_score :: "assignment \<Rightarrow> ident \<Rightarrow> real \<Rightarrow> learner \<Rightarrow> learner" where
  "record_score a assignmentId sc l =
     (let percentage = sc / points_possible a;
          recorded = assignmentScores l assignmentId
      in if \<not> truthy_num recorded \<or> (case recorded of None \<Rightarrow> False | Some p \<Rightarrow> p < percentage)
         then
           let l1 = (case recorded of
                       None \<Rightarrow> l
                     | Some p \<Rightarrow>
                         if truthy_num recorded
                         then l\<lparr>totalScore := totalScore l - p * points_possible a,
                                totalPossible := totalPossible l - points_possible a\<rparr>
                         else l)
           in l1\<lparr>assignmentScores := (assignmentScores l1)(assignmentId \<mapsto> percentage),
                 totalScore := totalScore l1 + sc,
                 totalPossible := totalPossible l1 + points_possible a\<rparr>
         else l)"

text \<open>
  Lines 41 to 95: one turn of the loop for an element whose properties can be read, with the
  console lines it prints. Past line 41 the three properties are truthy, so the \<open>None\<close>
  cases that follow it are never taken; they repeat its branch.
\<close>

definition process_submission ::
  "(ident \<rightharpoonup> assignment) \<Rightarrow> int \<Rightarrow> learner_map \<Rightarrow> learnerSubmission
     \<Rightarrow> console_line list \<times> learner_map" where
  "process_submission assignmentMap currentDate learnerData sub =
     (if malformed sub then ([Warn sub], learnerData)
      else
        (case learner_id sub of
           None \<Rightarrow> ([Warn sub], learnerData)
         | Some learnerId \<Rightarrow>
        (case assignment_id sub of
           None \<Rightarrow> ([Warn sub], learnerData)
         | Some assignmentId \<Rightarrow>
        (case submission sub of
           None \<Rightarrow> ([Warn sub], learnerData)
         | Some body \<Rightarrow>
             let learnerData1 = ensure_learner learnerId learnerData
             in (case scored_assignment assignmentMap currentDate assignmentId of
                   None \<Rightarrow> ([], learnerData1)
                 | Some a \<Rightarrow>
                     ([], modify_learner learnerId
                            (record_score a assignmentId (effective_score a body))
                            learnerData1))))))"

text \<open>
  Lines 39 to 95: one turn of the loop. Line 41 reads \<^verbatim>\<open>submission.learner_id\<close> before
  anything else; for \<^verbatim>\<open>null\<close> or \<^verbatim>\<open>undefined\<close> the engine throws.
\<close>

definition process_element ::
  "(ident \<rightharpoonup> assignment) \<Rightarrow> int \<Rightarrow> learner_map \<Rightarrow> learnerSubmission element
     \<Rightarrow> error + console_line list \<times> learner_map" where
  "process_element assignmentMap currentDate learnerData el =
     (case el of
        Nullish \<Rightarrow> Inl TypeError
      | Element sub \<Rightarrow> Inr (process_submission assignmentMap currentDate learnerData sub))"

text \<open>
  The loop of line 39: the console lines printed, and the map it ends with or the error that
  ends it.
\<close>

fun process_submissions ::
  "(ident \<rightharpoonup> assignment) \<Rightarrow> int \<Rightarrow> learner_map \<Rightarrow> learnerSubmission element list
     \<Rightarrow> console_line list \<times> (error + learner_map)" where
  "process_submissions assignmentMap currentDate learnerData [] = ([], Inr learnerData)"
| "process_submissions assignmentMap currentDate learnerData (el # rest) =
     (case process_element assignmentMap currentDate learnerData el of
        Inl e \<Rightarrow> ([], Inl e)
      | Inr (printed, learnerData1) \<Rightarrow>
          (case process_submissions assignmentMap currentDate learnerData1 rest of
             (printed_rest, r) \<Rightarrow> (printed @ printed_rest, r)))"

text \<open>Lines 99 to 109.\<close>

definition summary :: "learner \<Rightarrow> learnerSummary" where
  "summary d =
     \<lparr>id_summary = id_learner d, avg = totalScore d / totalPossible d, scores = assignmentScores d\<rparr>"

fun results_of :: "learner_map \<Rightarrow> learnerSummary list" where
  "results_of [] = []"
| "results_of ((learnerId, d) # rest) =
     (if totalPossible d = 0 then results_of rest else summary d # results_of rest)"

text \<open>
  Lines 8 to 116. \<open>currentDate\<close> is the clock read at line 23. An error thrown inside
  \<^verbatim>\<open>try\<close> is printed by \<^verbatim>\<open>console.error\<close> and thrown again; the one of line 13 is not
  inside it; what the loop has printed before it throws stays on the console. After the
  test of line 10 the arguments that are not objects or arrays are gone, and the last case
  is a \<^verbatim>\<open>null\<close> whose property is read at line 18.
\<close>

definition getLearnerData ::
  "int \<Rightarrow> courseInfo object_arg \<Rightarrow> assignmentGroup object_arg
     \<Rightarrow> learnerSubmission element array_arg
     \<Rightarrow> console_line list \<times> (error + learnerSummary list)" where
  "getLearnerData currentDate courseInfo assignmentGroup learnerSubmissions =
     (if \<not> typeof_object courseInfo \<or> \<not> typeof_object assignmentGroup
           \<or> \<not> isArray learnerSubmissions
      then ([], Inl InvalidInputType)
      else
        (case (assignmentGroup, courseInfo, learnerSubmissions) of
           (Object g, Object c, Array subs) \<Rightarrow>
             if course_id g \<noteq> id_course c
             then ([ConsoleError GroupMismatch], Inl GroupMismatch)
             else
               (case index_assignments Map.empty (assignments g) of
                  Inl e \<Rightarrow> ([ConsoleError e], Inl e)
                | Inr assignmentMap \<Rightarrow>
                    (case process_submissions assignmentMap currentDate [] subs of
                       (printed, Inl e) \<Rightarrow> (printed @ [ConsoleError e], Inl e)
                     | (printed, Inr learnerData) \<Rightarrow> (printed, Inr (results_of learnerData))))
         | _ \<Rightarrow> ([ConsoleError TypeError], Inl TypeError)))"

section \<open>The example data\<close>

text \<open>Lines 124 to 205, the dates as time values (midnight UTC of the day).\<close>

definition example_courseInfo :: courseInfo where
  "example_courseInfo = \<lparr>id_course = Some 1\<rparr>"

definition example_assignmentGroup :: assignmentGroup where
  "example_assignmentGroup =
     \<lparr>course_id = Some 1,
      assignments =
        [\<lparr>id_assignment = 1, due_at = Some 1696118400000, points_possible = 100\<rparr>,
         \<lparr>id_assignment = 2, due_at = Some 1696723200000, points_possible = 200\<rparr>,
         \<lparr>id_assignment = 3, due_at = Some 1697328000000, points_possible = 150\<rparr>]\<rparr>"

definition example_learnerSubmissions :: "learnerSubmission element list" where
  "example_learnerSubmissions =
     [Element \<lparr>learner_id = Some 101, assignment_id = Some 1,
        submission = Some \<lparr>submitted_at = Some 1696032000000, score = 85\<rparr>\<rparr>,
      Element \<lparr>learner_id = Some 101, assignment_id = Some 2,
        submission = Some \<lparr>submitted_at = Some 1696809600000, score = 180\<rparr>\<rparr>,
      Element \<lparr>learner_id = Some 101, assignment_id = Some 1,
        submission = Some \<lparr>submitted_at = Some 1695945600000, score = 90\<rparr>\<rparr>,
      Element \<lparr>learner_id = Some 102, assignment_id = Some 1,
        submission = Some \<lparr>submitted_at = Some 1696204800000, score = 95\<rparr>\<rparr>,
      Element \<lparr>learner_id = Some 102, assignment_id = Some 3,
        submission = Some \<lparr>submitted_at = Some 1696896000000, score = 120\<rparr>\<rparr>,
      Element \<lparr>learner_id = Some 103, assignment_id = Some 2,
        submission = Some \<lparr>submitted_at = Some 1696464000000, score = 150\<rparr>\<rparr>]"

section \<open>The function on a store\<close>

text \<open>
  JavaScript passes objects by reference. To say what the call does to the objects it is
  given, the objects live in a store: a list of cells, the address of a cell being its
  index. An object literal allocates a new cell at the end, an assignment to a property
  overwrites a cell. The arguments are references into the store, as are the
  \<^verbatim>\<open>submission\<close> property of a submission and the elements of an array, where \<open>None\<close> is
  an element that is \<^verbatim>\<open>null\<close> or \<^verbatim>\<open>undefined\<close>.

  \<^verbatim>\<open>assignmentMap\<close>, \<^verbatim>\<open>learnerData\<close> and \<^verbatim>\<open>results\<close> are made by the call and held in
  its local variables alone; they stay values here, the first two holding references as
  they do in the code. The accumulator of a learner, with its \<^verbatim>\<open>assignmentScores\<close>, is one
  cell. The run is \<open>None\<close> where it reads a reference that does not hold the kind of object
  of the data model; the console is left out.
\<close>

type_synonym addr = nat

datatype cell =
    CourseCell courseInfo
  | GroupCell "ident option" addr
  | ArrayCell "addr option list"
  | AssignmentCell assignment
  | SubmissionCell "ident option" "ident option" "addr option"
  | SubmittedCell submitted
  | LearnerCell learner

type_synonym store = "cell list"

definition read_cell :: "store \<Rightarrow> addr \<Rightarrow> cell option" where
  "read_cell h p = (if p < length h then Some (h ! p) else None)"

definition allocate :: "cell \<Rightarrow> store \<Rightarrow> addr \<times> store" where
  "allocate c h = (length h, h @ [c])"

definition write_cell :: "addr \<Rightarrow> cell \<Rightarrow> store \<Rightarrow> store" where
  "write_cell p c h = h[p := c]"

definition isArray_store :: "store \<Rightarrow> addr object_arg \<Rightarrow> bool" where
  "isArray_store h v =
     (case v of
        Object p \<Rightarrow> (case read_cell h p of Some (ArrayCell refs) \<Rightarrow> True | _ \<Rightarrow> False)
      | _ \<Rightarrow> False)"

text \<open>
  Lines 26 to 33; the map holds the references to the group's assignments. Line 29 reads
  \<^verbatim>\<open>assignment.points_possible\<close>, and throws for an element that is \<^verbatim>\<open>null\<close> or
  \<^verbatim>\<open>undefined\<close>.
\<close>

fun index_assignments_store ::
  "store \<Rightarrow> (ident \<rightharpoonup> addr) \<Rightarrow> addr option list \<Rightarrow> (error + (ident \<rightharpoonup> addr)) option" where
  "index_assignments_store h assignmentMap [] = Some (Inr assignmentMap)"
| "index_assignments_store h assignmentMap (None # rest) = Some (Inl TypeError)"
| "index_assignments_store h assignmentMap (Some p # rest) =
     (case read_cell h p of
        Some (AssignmentCell a) \<Rightarrow>
          if points_possible a < 0 then Some (Inl (InvalidAssignment (id_assignment a)))
          else index_assignments_store h (assignmentMap(id_assignment a \<mapsto> p)) rest
      | _ \<Rightarrow> None)"

text \<open>Lines 50 to 57: the object literal is a new cell, and the map gets its reference.\<close>

definition ensure_learner_store ::
  "ident \<Rightarrow> (ident \<times> addr) list \<Rightarrow> store \<Rightarrow> (ident \<times> addr) list \<times> store" where
  "ensure_learner_store learnerId learnerData h =
     (if \<not> has_learner learnerData learnerId
      then (case allocate (LearnerCell (new_learner learnerId)) h of
              (p, h1) \<Rightarrow> (learnerData @ [(learnerId, p)], h1))
      else (learnerData, h))"

text \<open>
  Lines 41 to 95 for the submission at reference \<open>p\<close>. Line 59 gets the reference \<open>lp\<close> of the
  accumulator from the map; lines 88 to 94 write through it.
\<close>

definition process_submission_store ::
  "(ident \<rightharpoonup> addr) \<Rightarrow> int \<Rightarrow> (ident \<times> addr) list \<Rightarrow> store \<Rightarrow> addr
     \<Rightarrow> ((ident \<times> addr) list \<times> store) option" where
  "process_submission_store assignmentMap currentDate learnerData h p =
     (case read_cell h p of
        Some (SubmissionCell lid aid sref) \<Rightarrow>
          if \<not> truthy_id lid \<or> \<not> truthy_id aid \<or> sref = None then Some (learnerData, h)
          else
            (case lid of None \<Rightarrow> Some (learnerData, h) | Some learnerId \<Rightarrow>
            (case aid of None \<Rightarrow> Some (learnerData, h) | Some assignmentId \<Rightarrow>
            (case sref of None \<Rightarrow> Some (learnerData, h) | Some bp \<Rightarrow>
            (case ensure_learner_store learnerId learnerData h of (learnerData1, h1) \<Rightarrow>
            (case map_of learnerData1 learnerId of None \<Rightarrow> None | Some lp \<Rightarrow>
            (case assignmentMap assignmentId of None \<Rightarrow> Some (learnerData1, h1) | Some ap \<Rightarrow>
            (case read_cell h1 ap of
               Some (AssignmentCell a) \<Rightarrow>
                 if date_gt (due_at a) (Some currentDate) then Some (learnerData1, h1)
                 else if points_possible a = 0 then Some (learnerData1, h1)
                 else
                   (case read_cell h1 bp of
                      Some (SubmittedCell body) \<Rightarrow>
                        (case read_cell h1 lp of
                           Some (LearnerCell l) \<Rightarrow>
                             Some (learnerData1,
                               write_cell lp
                                 (LearnerCell
                                    (record_score a assignmentId (effective_score a body) l))
                                 h1)
                         | _ \<Rightarrow> None)
                    | _ \<Rightarrow> None)
             | _ \<Rightarrow> None)))))))
      | _ \<Rightarrow> None)"

text \<open>The loop of line 39; an element that is \<^verbatim>\<open>null\<close> or \<^verbatim>\<open>undefined\<close> ends it at line 41.\<close>

fun process_submissions_store ::
  "(ident \<rightharpoonup> addr) \<Rightarrow> int \<Rightarrow> (ident \<times> addr) list \<Rightarrow> store \<Rightarrow> addr option list
     \<Rightarrow> ((error + (ident \<times> addr) list) \<times> store) option" where
  "process_submissions_store assignmentMap currentDate learnerData h [] =
     Some (Inr learnerData, h)"
| "process_submissions_store assignmentMap currentDate learnerData h (None # rest) =
     Some (Inl TypeError, h)"
| "process_submissions_store assignmentMap currentDate learnerData h (Some p # rest) =
     (case process_submission_store assignmentMap currentDate learnerData h p of
        None \<Rightarrow> None
      | Some (learnerData1, h1) \<Rightarrow>
          process_submissions_store assignmentMap currentDate learnerData1 h1 rest)"

text \<open>Lines 99 to 109.\<close>

fun results_of_store :: "store \<Rightarrow> (ident \<times> addr) list \<Rightarrow> learnerSummary list option" where
  "results_of_store h [] = Some []"
| "results_of_store h ((learnerId, p) # rest) =
     (case read_cell h p of
        Some (LearnerCell d) \<Rightarrow>
          (case results_of_store h rest of
             None \<Rightarrow> None
           | Some out \<Rightarrow> Some (if totalPossible d = 0 then out else summary d # out))
      | _ \<Rightarrow> None)"

text \<open>Lines 8 to 116: what the call returns or throws, and the store it leaves.\<close>

definition getLearnerData_store ::
  "int \<Rightarrow> addr object_arg \<Rightarrow> addr object_arg \<Rightarrow> addr object_arg \<Rightarrow> store
     \<Rightarrow> ((error + learnerSummary list) \<times> store) option" where
  "getLearnerData_store currentDate courseInfo assignmentGroup learnerSubmissions h =
     (if \<not> typeof_object courseInfo \<or> \<not> typeof_object assignmentGroup
           \<or> \<not> isArray_store h learnerSubmissions
      then Some (Inl InvalidInputType, h)
      else
        (case (assignmentGroup, courseInfo, learnerSubmissions) of
           (Object gp, Object cp, Object sp) \<Rightarrow>
             (case (read_cell h gp, read_cell h cp, read_cell h sp) of
                (Some (GroupCell cid arr), Some (CourseCell c), Some (ArrayCell subs)) \<Rightarrow>
                  if cid \<noteq> id_course c then Some (Inl GroupMismatch, h)
                  else
                    (case read_cell h arr of
                       Some (ArrayCell refs) \<Rightarrow>
                         (case index_assignments_store h Map.empty refs of
                            None \<Rightarrow> None
                          | Some (Inl e) \<Rightarrow> Some (Inl e, h)
                          | Some (Inr assignmentMap) \<Rightarrow>
                              (case process_submissions_store assignmentMap currentDate [] h subs of
                                 None \<Rightarrow> None
                               | Some (Inl e, h1) \<Rightarrow> Some (Inl e, h1)
                               | Some (Inr learnerData, h1) \<Rightarrow>
                                   (case results_of_store h1 learnerData of
                                      None \<Rightarrow> None
                                    | Some out \<Rightarrow> Some (Inr out, h1))))
                     | _ \<Rightarrow> None)
              | _ \<Rightarrow> None)
         | _ \<Rightarrow> Some (Inl TypeError, h)))"

text \<open>The values that the arguments' references hold in a store.\<close>

fun values_at :: "(addr \<Rightarrow> 'a option) \<Rightarrow> addr option list \<Rightarrow> 'a list option" where
  "values_at f [] = Some []"
| "values_at f (None # ps) = None"
| "values_at f (Some p # ps) =
     (case f p of
        None \<Rightarrow> None
      | Some x \<Rightarrow> (case values_at f ps of None \<Rightarrow> None | Some xs \<Rightarrow> Some (x # xs)))"

fun elements_at :: "(addr \<Rightarrow> 'a option) \<Rightarrow> addr option list \<Rightarrow> 'a element list option" where
  "elements_at f [] = Some []"
| "elements_at f (None # ps) =
     (case elements_at f ps of None \<Rightarrow> None | Some xs \<Rightarrow> Some (Nullish # xs))"
| "elements_at f (Some p # ps) =
     (case f p of
        None \<Rightarrow> None
      | Some x \<Rightarrow> (case elements_at f ps of None \<Rightarrow> None | Some xs \<Rightarrow> Some (Element x # xs)))"

definition course_at :: "store \<Rightarrow> addr \<Rightarrow> courseInfo option" where
  "course_at h p = (case read_cell h p of Some (CourseCell c) \<Rightarrow> Some c | _ \<Rightarrow> None)"

definition assignment_at :: "store \<Rightarrow> addr \<Rightarrow> assignment option" where
  "assignment_at h p = (case read_cell h p of Some (AssignmentCell a) \<Rightarrow> Some a | _ \<Rightarrow> None)"

definition group_at :: "store \<Rightarrow> addr \<Rightarrow> assignmentGroup option" where
  "group_at h p =
     (case read_cell h p of
        Some (GroupCell cid arr) \<Rightarrow>
          (case read_cell h arr of
             Some (ArrayCell refs) \<Rightarrow>
               (case values_at (assignment_at h) refs of
                  None \<Rightarrow> None
                | Some as \<Rightarrow> Some \<lparr>course_id = cid, assignments = as\<rparr>)
           | _ \<Rightarrow> None)
      | _ \<Rightarrow> None)"

definition submission_at :: "store \<Rightarrow> addr \<Rightarrow> learnerSubmission option" where
  "submission_at h p =
     (case read_cell h p of
        Some (SubmissionCell lid aid sref) \<Rightarrow>
          (case sref of
             None \<Rightarrow> Some \<lparr>learner_id = lid, assignment_id = aid, submission = None\<rparr>
           | Some bp \<Rightarrow>
               (case read_cell h bp of
                  Some (SubmittedCell body) \<Rightarrow>
                    Some \<lparr>learner_id = lid, assignment_id = aid, submission = Some body\<rparr>
                | _ \<Rightarrow> None))
      | _ \<Rightarrow> None)"

definition object_arg_at :: "(addr \<Rightarrow> 'a option) \<Rightarrow> addr object_arg \<Rightarrow> 'a object_arg option" where
  "object_arg_at f v =
     (case v of
        NotObject \<Rightarrow> Some NotObject
      | NullValue \<Rightarrow> Some NullValue
      | Object p \<Rightarrow> (case f p of None \<Rightarrow> None | Some x \<Rightarrow> Some (Object x)))"

definition array_arg_at ::
  "store \<Rightarrow> addr object_arg \<Rightarrow> learnerSubmission element array_arg option" where
  "array_arg_at h v =
     (case v of
        Object p \<Rightarrow>
          (case read_cell h p of
             None \<Rightarrow> None
           | Some (ArrayCell refs) \<Rightarrow>
               (case elements_at (submission_at h) refs of
                  None \<Rightarrow> None
                | Some subs \<Rightarrow> Some (Array subs))
           | Some other \<Rightarrow> Some NotArray)
      | _ \<Rightarrow> Some NotArray)"

text \<open>
  How the stores of a run relate to the values of the run on values: the references of the
  accumulators hold the accumulators, at addresses from \<open>n\<close> on, no two of them the same; the
  references of the assignment map hold its assignments.
\<close>

definition accumulators_at :: "nat \<Rightarrow> store \<Rightarrow> (ident \<times> addr) list \<Rightarrow> learner_map \<Rightarrow> bool" where
  "accumulators_at n h refs learnerData =
     (list_all2 (\<lambda>(k, q) (k', l). k' = k \<and> n \<le> q \<and> read_cell h q = Some (LearnerCell l))
        refs learnerData
      \<and> distinct (map snd refs))"

definition assignments_at :: "store \<Rightarrow> (ident \<rightharpoonup> addr) \<Rightarrow> (ident \<rightharpoonup> assignment) \<Rightarrow> bool" where
  "assignments_at h refs assignmentMap =
     (\<forall>k. (refs k = None \<longrightarrow> assignmentMap k = None)
        \<and> (\<forall>p. refs k = Some p \<longrightarrow>
              (\<exists>a. assignment_at h p = Some a \<and> assignmentMap k = Some a)))"

section \<open>Auxiliary facts\<close>

lemma date_gt_Some [simp]: "date_gt (Some x) (Some y) = (y < x)"
  by (simp add: date_gt_def)

subsection \<open>The loop\<close>

lemma process_submission_malformed:
  "malformed sub \<Longrightarrow> process_submission m now ld sub = ([Warn sub], ld)"
  by (simp add: process_submission_def)

lemma fst_process_submission:
  "fst (process_submission m now ld sub) = (if malformed sub then [Warn sub] else [])"
  by (auto simp: process_submission_def malformed_def truthy_id_def Let_def split: option.splits)

lemma process_submissions_Element:
  "process_submissions m now ld (Element sub # rest) =
     (case process_submissions m now (snd (process_submission m now ld sub)) rest of
        (printed, r) \<Rightarrow> ((if malformed sub then [Warn sub] else []) @ printed, r))"
proof -
  obtain p ld1 where s: "process_submission m now ld sub = (p, ld1)"
    by (cases "process_submission m now ld sub")
  then have "p = (if malformed sub then [Warn sub] else [])"
    using fst_process_submission [of m now ld sub] by simp
  with s show ?thesis
    by (simp add: process_element_def split: prod.splits)
qed

lemma process_submissions_Nullish:
  "process_submissions m now ld (Nullish # rest) = ([], Inl TypeError)"
  by (simp add: process_element_def)

text \<open>
  Up to the first element that is \<^verbatim>\<open>null\<close> or \<^verbatim>\<open>undefined\<close> the loop folds the turns
  over the map and prints a warning for each malformed element.
\<close>

lemma process_submissions_append:
  "process_submissions m now ld (map Element subs @ rest) =
     (case process_submissions m now
             (fold (\<lambda>sub ld. snd (process_submission m now ld sub)) subs ld) rest of
        (printed, r) \<Rightarrow> (map Warn (filter malformed subs) @ printed, r))"
proof (induction subs arbitrary: ld)
  case Nil
  show ?case by simp
next
  case (Cons sub subs)
  show ?case
    by (simp only: list.map append_Cons process_submissions_Element Cons.IH fold_Cons comp_apply)
      (simp split: prod.splits)
qed

lemma process_submissions_elements:
  "process_submissions m now ld (map Element subs) =
     (map Warn (filter malformed subs),
      Inr (fold (\<lambda>sub ld. snd (process_submission m now ld sub)) subs ld))"
  using process_submissions_append [of m now ld subs "[]"] by simp

lemma process_submissions_upto_nullish:
  "process_submissions m now ld (map Element subs @ Nullish # rest) =
     (map Warn (filter malformed subs), Inl TypeError)"
  by (simp only: process_submissions_append process_submissions_Nullish) simp

lemma elements_cases:
  obtains (elements) subs where "els = map Element subs"
  | (nullish) subs rest where "els = map Element subs @ Nullish # rest"
proof (induction els arbitrary: thesis)
  case Nil
  from Nil(1) [of "[]"] show ?case by simp
next
  case (Cons el els)
  show ?case
  proof (cases el)
    case Nullish
    with Cons.prems(2) [of "[]" els] show ?thesis by simp
  next
    case (Element sub)
    show ?thesis
    proof (rule Cons.IH)
      fix subs
      assume "els = map Element subs"
      with Element Cons.prems(1) [of "sub # subs"] show ?thesis by simp
    next
      fix subs rest
      assume "els = map Element subs @ Nullish # rest"
      with Element Cons.prems(2) [of "sub # subs" rest] show ?thesis by simp
    qed
  qed
qed

lemma process_submissions_Inr:
  assumes "process_submissions m now ld els = (printed, Inr ld')"
  obtains subs where "els = map Element subs" and "printed = map Warn (filter malformed subs)"
    and "ld' = fold (\<lambda>sub ld. snd (process_submission m now ld sub)) subs ld"
proof (cases els rule: elements_cases)
  case (elements subs)
  with assms that [of subs] show ?thesis
    by (simp add: process_submissions_elements)
next
  case (nullish subs rest)
  with assms show ?thesis
    by (simp add: process_submissions_upto_nullish)
qed

lemma process_submissions_Inl:
  assumes "process_submissions m now ld els = (printed, Inl e)"
  shows "e = TypeError"
proof (cases els rule: elements_cases)
  case (elements subs)
  with assms show ?thesis
    by (simp add: process_submissions_elements)
next
  case (nullish subs rest)
  with assms show ?thesis
    by (simp add: process_submissions_upto_nullish)
qed

lemma fold_skip_malformed:
  assumes "malformed x"
  shows "fold (\<lambda>sub ld. snd (process_submission m now ld sub)) (xs @ x # ys) ld =
    fold (\<lambda>sub ld. snd (process_submission m now ld sub)) (xs @ ys) ld"
  by (simp add: process_submission_malformed [OF assms])

subsection \<open>Invariants of the loop\<close>

lemma set_ensure_learner:
  "set (ensure_learner k ld) = (if has_learner ld k then set ld else insert (k, new_learner k) (set ld))"
  by (simp add: ensure_learner_def)

lemma set_modify_learner:
  "set (modify_learner k f ld) \<subseteq> set ld \<union> {(k, f l) | l. (k, l) \<in> set ld}"
  by (induction k f ld rule: modify_learner.induct) auto

lemma process_submission_cases:
  obtains (warn) "malformed sub" "process_submission m now ld sub = ([Warn sub], ld)"
  | (skip) k aid body where "\<not> malformed sub" "learner_id sub = Some k" "assignment_id sub = Some aid"
      "submission sub = Some body" "scored_assignment m now aid = None"
      "process_submission m now ld sub = ([], ensure_learner k ld)"
  | (score) k aid body a where "\<not> malformed sub" "learner_id sub = Some k" "assignment_id sub = Some aid"
      "submission sub = Some body" "scored_assignment m now aid = Some a"
      "process_submission m now ld sub =
         ([], modify_learner k (record_score a aid (effective_score a body)) (ensure_learner k ld))"
proof (cases "malformed sub")
  case True
  then show ?thesis using warn by (simp add: process_submission_def)
next
  case False
  then obtain k aid body where f: "learner_id sub = Some k" "assignment_id sub = Some aid"
      "submission sub = Some body"
    by (auto simp: malformed_def truthy_id_def split: option.splits)
  show ?thesis
  proof (cases "scored_assignment m now aid")
    case None
    with False f show ?thesis using skip by (simp add: process_submission_def)
  next
    case (Some a)
    with False f show ?thesis using score by (simp add: process_submission_def)
  qed
qed

lemma process_submission_invariant:
  assumes inv: "\<forall>(k, l) \<in> set ld. P k l"
    and new: "\<And>k. \<not> malformed sub \<Longrightarrow> learner_id sub = Some k \<Longrightarrow> P k (new_learner k)"
    and upd: "\<And>k aid body a l. \<not> malformed sub \<Longrightarrow> learner_id sub = Some k \<Longrightarrow>
       assignment_id sub = Some aid \<Longrightarrow> submission sub = Some body \<Longrightarrow>
       scored_assignment m now aid = Some a \<Longrightarrow> P k l \<Longrightarrow>
       P k (record_score a aid (effective_score a body) l)"
  shows "\<forall>(k, l) \<in> set (snd (process_submission m now ld sub)). P k l"
proof (cases rule: process_submission_cases [of sub m now ld])
  case warn
  with inv show ?thesis by simp
next
  case (skip k aid body)
  with inv new [of k] show ?thesis
    by (auto simp: set_ensure_learner split: if_splits)
next
  case (score k aid body a)
  have e: "\<forall>(k, l) \<in> set (ensure_learner k ld). P k l"
    using inv new [of k] score by (auto simp: set_ensure_learner split: if_splits)
  have "\<forall>(k', l) \<in> set (modify_learner k (record_score a aid (effective_score a body))
      (ensure_learner k ld)). P k' l"
  proof (clarify)
    fix k' l
    assume "(k', l) \<in> set (modify_learner k (record_score a aid (effective_score a body))
      (ensure_learner k ld))"
    then consider "(k', l) \<in> set (ensure_learner k ld)"
      | l0 where "k' = k" "l = record_score a aid (effective_score a body) l0"
          "(k, l0) \<in> set (ensure_learner k ld)"
      using set_modify_learner [of k _ "ensure_learner k ld"] by blast
    then show "P k' l"
    proof cases
      case 1
      with e show ?thesis by auto
    next
      case 2
      with e have "P k l0" by auto
      with 2 upd [of k aid body a l0] score show ?thesis by simp
    qed
  qed
  with score show ?thesis by simp
qed

lemma fold_invariant:
  assumes inv: "\<forall>(k, l) \<in> set ld. P k l"
    and new: "\<And>sub k. sub \<in> set subs \<Longrightarrow> \<not> malformed sub \<Longrightarrow> learner_id sub = Some k \<Longrightarrow>
       P k (new_learner k)"
    and upd: "\<And>sub k aid body a l. sub \<in> set subs \<Longrightarrow> \<not> malformed sub \<Longrightarrow>
       learner_id sub = Some k \<Longrightarrow>
       assignment_id sub = Some aid \<Longrightarrow> submission sub = Some body \<Longrightarrow>
       scored_assignment m now aid = Some a \<Longrightarrow> P k l \<Longrightarrow>
       P k (record_score a aid (effective_score a body) l)"
  shows "\<forall>(k, l) \<in> set (fold (\<lambda>sub ld. snd (process_submission m now ld sub)) subs ld). P k l"
  using assms
proof (induction subs arbitrary: ld)
  case Nil
  then show ?case by simp
next
  case (Cons sub rest)
  have step: "\<forall>(k, l) \<in> set (snd (process_submission m now ld sub)). P k l"
  proof (rule process_submission_invariant [OF Cons.prems(1)])
    show "P k (new_learner k)" if "\<not> malformed sub" "learner_id sub = Some k" for k
      using Cons.prems(2) [of sub k] that by simp
    show "P k (record_score a aid (effective_score a body) l)"
      if "\<not> malformed sub" "learner_id sub = Some k" "assignment_id sub = Some aid"
        "submission sub = Some body" "scored_assignment m now aid = Some a" "P k l"
      for k aid body a l
      using Cons.prems(3) [of sub k aid body a l] that by simp
  qed
  have "\<forall>(k, l) \<in> set (fold (\<lambda>sub ld. snd (process_submission m now ld sub)) rest
      (snd (process_submission m now ld sub))). P k l"
  proof (rule Cons.IH [OF step])
    show "P k (new_learner k)" if "s \<in> set rest" "\<not> malformed s" "learner_id s = Some k" for s k
      using Cons.prems(2) [of s k] that by simp
    show "P k (record_score a aid (effective_score a body) l)"
      if "s \<in> set rest" "\<not> malformed s" "learner_id s = Some k" "assignment_id s = Some aid"
        "submission s = Some body" "scored_assignment m now aid = Some a" "P k l"
      for s k aid body a l
      using Cons.prems(3) [of s k aid body a l] that by simp
  qed
  then show ?case by simp
qed

lemma results_of_mem:
  "r \<in> set (results_of ld) \<Longrightarrow> \<exists>k l. (k, l) \<in> set ld \<and> totalPossible l \<noteq> 0 \<and> r = summary l"
  by (induction ld rule: results_of.induct) (auto split: if_splits)

lemma assignmentScores_record_score_other:
  "aid' \<noteq> aid \<Longrightarrow> assignmentScores (record_score a aid sc l) aid' = assignmentScores l aid'"
  by (simp add: record_score_def Let_def split: option.splits)

lemma id_learner_record_score [simp]:
  "id_learner (record_score a aid sc l) = id_learner l"
  by (simp add: record_score_def Let_def split: option.splits)

lemma no_score_for_skipped_assignment:
  assumes "scored_assignment m now aid0 = None"
    and "\<forall>(k, l) \<in> set ld. assignmentScores l aid0 = None"
  shows "\<forall>(k, l) \<in> set (fold (\<lambda>sub ld. snd (process_submission m now ld sub)) subs ld). assignmentScores l aid0 = None"
proof (rule fold_invariant [OF assms(2)])
  show "assignmentScores (new_learner k) aid0 = None" for k
    by (simp add: new_learner_def)
next
  fix aid a body and l :: learner
  assume "scored_assignment m now aid = Some a" "assignmentScores l aid0 = None"
  with assms(1) have "aid0 \<noteq> aid" by auto
  with \<open>assignmentScores l aid0 = None\<close>
  show "assignmentScores (record_score a aid (effective_score a body) l) aid0 = None"
    by (simp add: assignmentScores_record_score_other)
qed

lemma keys_are_ids:
  assumes "\<forall>(k, l) \<in> set ld. id_learner l = k"
  shows "\<forall>(k, l) \<in> set (fold (\<lambda>sub ld. snd (process_submission m now ld sub)) subs ld). id_learner l = k"
  by (rule fold_invariant [OF assms]) (simp_all add: new_learner_def)

lemma untouched_learner:
  assumes "\<forall>sub \<in> set subs. learner_id sub = Some k0 \<longrightarrow>
      malformed sub \<or> (\<exists>aid. assignment_id sub = Some aid \<and> scored_assignment m now aid = None)"
    and "\<forall>(k, l) \<in> set ld. k = k0 \<longrightarrow> l = new_learner k0"
  shows "\<forall>(k, l) \<in> set (fold (\<lambda>sub ld. snd (process_submission m now ld sub)) subs ld). k = k0 \<longrightarrow> l = new_learner k0"
proof (rule fold_invariant [OF assms(2)])
  show "k = k0 \<longrightarrow> new_learner k = new_learner k0" for k by simp
next
  fix sub k aid body a and l :: learner
  assume "sub \<in> set subs" "\<not> malformed sub" "learner_id sub = Some k" "assignment_id sub = Some aid"
    "scored_assignment m now aid = Some a"
  with assms(1) have "k \<noteq> k0" by force
  then show "k = k0 \<longrightarrow> record_score a aid (effective_score a body) l = new_learner k0" by simp
qed

subsection \<open>The assignment map\<close>

lemma index_assignments_valid:
  "\<forall>a \<in> set as. 0 \<le> points_possible a \<Longrightarrow> \<exists>M. index_assignments m as = Inr M"
  by (induction as arbitrary: m) auto

lemma index_assignments_no_type_error:
  "index_assignments m as = Inl e \<Longrightarrow> e \<noteq> InvalidInputType"
  by (induction as arbitrary: m) (auto split: if_splits)

text \<open>The map of the group without the assignments of an id is the map without that id.\<close>

lemma index_assignments_without_id:
  assumes "index_assignments m as = Inr M"
  shows "index_assignments (m(k := None)) (filter (\<lambda>b. id_assignment b \<noteq> k) as) =
    Inr (M(k := None))"
  using assms
proof (induction as arbitrary: m)
  case Nil
  then show ?case by simp
next
  case (Cons b as)
  from Cons.prems have nb: "\<not> points_possible b < 0"
    and rest: "index_assignments (m(id_assignment b \<mapsto> b)) as = Inr M"
    by (auto split: if_splits)
  have ih: "index_assignments ((m(id_assignment b \<mapsto> b))(k := None))
      (filter (\<lambda>b. id_assignment b \<noteq> k) as) = Inr (M(k := None))"
    using rest by (rule Cons.IH)
  show ?case
  proof (cases "id_assignment b = k")
    case True
    have u: "(m(id_assignment b \<mapsto> b))(k := None) = m(k := None)"
      unfolding True by (rule fun_upd_upd)
    have l: "filter (\<lambda>b. id_assignment b \<noteq> k) (b # as) = filter (\<lambda>b. id_assignment b \<noteq> k) as"
      using True by simp
    show ?thesis
      using ih by (simp only: l u)
  next
    case False
    have u: "(m(id_assignment b \<mapsto> b))(k := None) = (m(k := None))(id_assignment b \<mapsto> b)"
      using False by (rule fun_upd_twist)
    have l: "filter (\<lambda>b. id_assignment b \<noteq> k) (b # as) =
      b # filter (\<lambda>b. id_assignment b \<noteq> k) as"
      using False by simp
    show ?thesis
      using ih nb by (simp only: l u index_assignments.simps if_False)
  qed
qed

lemma scored_assignment_forget:
  assumes "scored_assignment m now aid = None"
  shows "scored_assignment (m(aid := None)) now = scored_assignment m now"
proof
  fix k
  show "scored_assignment (m(aid := None)) now k = scored_assignment m now k"
    using assms by (cases "k = aid") (simp_all add: scored_assignment_def)
qed

lemma process_submission_scored:
  assumes "scored_assignment m' now = scored_assignment m now"
  shows "process_submission m' now ld sub = process_submission m now ld sub"
proof -
  have "scored_assignment m' now k = scored_assignment m now k" for k
    using assms by (rule fun_cong)
  then show ?thesis
    by (simp add: process_submission_def split: option.splits)
qed

lemma process_submissions_scored:
  assumes "scored_assignment m' now = scored_assignment m now"
  shows "process_submissions m' now ld els = process_submissions m now ld els"
proof (induction els arbitrary: ld)
  case Nil
  show ?case by simp
next
  case (Cons el rest)
  have "process_element m' now ld el = process_element m now ld el"
    by (simp add: process_element_def process_submission_scored [OF assms] split: element.splits)
  then show ?case
    by (simp add: Cons.IH split: sum.splits prod.splits)
qed

lemma skipped_step:
  assumes "assignment_id sub = Some aid" and "scored_assignment m now aid = None"
  shows "snd (process_submission m now ld sub) = ld
    \<or> (\<exists>k. learner_id sub = Some k \<and> \<not> has_learner ld k
          \<and> snd (process_submission m now ld sub) = ld @ [(k, new_learner k)])"
proof (cases rule: process_submission_cases [of sub m now ld])
  case warn
  then show ?thesis by simp
next
  case (skip k aid' body)
  then show ?thesis by (simp add: ensure_learner_def)
next
  case (score k aid' body a)
  with assms show ?thesis by simp
qed

subsection \<open>The call, by the kind of its arguments\<close>

lemma getLearnerData_objects:
  "getLearnerData now (Object c) (Object g) (Array els) =
     (if course_id g \<noteq> id_course c then ([ConsoleError GroupMismatch], Inl GroupMismatch)
      else case index_assignments Map.empty (assignments g) of
             Inl e \<Rightarrow> ([ConsoleError e], Inl e)
           | Inr assignmentMap \<Rightarrow>
               (case process_submissions assignmentMap now [] els of
                  (printed, Inl e) \<Rightarrow> (printed @ [ConsoleError e], Inl e)
                | (printed, Inr learnerData) \<Rightarrow> (printed, Inr (results_of learnerData))))"
  by (simp add: getLearnerData_def typeof_object_def isArray_def)

lemma getLearnerData_elements:
  "getLearnerData now (Object c) (Object g) (Array (map Element subs)) =
     (if course_id g \<noteq> id_course c then ([ConsoleError GroupMismatch], Inl GroupMismatch)
      else case index_assignments Map.empty (assignments g) of
             Inl e \<Rightarrow> ([ConsoleError e], Inl e)
           | Inr assignmentMap \<Rightarrow>
               (map Warn (filter malformed subs),
                Inr (results_of
                  (fold (\<lambda>sub ld. snd (process_submission assignmentMap now ld sub)) subs []))))"
  by (simp add: getLearnerData_objects process_submissions_elements split: sum.splits)

lemma getLearnerData_invalid_types:
  "c = NotObject \<or> g = NotObject \<or> s = NotArray \<Longrightarrow>
     getLearnerData now c g s = ([], Inl InvalidInputType)"
  by (auto simp: getLearnerData_def typeof_object_def isArray_def)

lemma getLearnerData_null:
  "c = NullValue \<and> g \<noteq> NotObject \<or> g = NullValue \<and> c \<noteq> NotObject \<Longrightarrow>
     getLearnerData now c g (Array subs) = ([ConsoleError TypeError], Inl TypeError)"
  by (cases c; cases g) (auto simp: getLearnerData_def typeof_object_def isArray_def)

lemma getLearnerData_Inr:
  assumes "getLearnerData now (Object c) (Object g) (Array els) = (printed, Inr out)"
  obtains M subs where "index_assignments Map.empty (assignments g) = Inr M"
    and "els = map Element subs"
    and "out = results_of (fold (\<lambda>sub ld. snd (process_submission M now ld sub)) subs [])"
    and "printed = map Warn (filter malformed subs)" and "course_id g = id_course c"
proof -
  from assms obtain M ld where M: "index_assignments Map.empty (assignments g) = Inr M"
    and c: "course_id g = id_course c"
    and run: "process_submissions M now [] els = (printed, Inr ld)" and o: "out = results_of ld"
    by (auto simp: getLearnerData_objects split: if_splits sum.splits prod.splits)
  from run obtain subs where "els = map Element subs" "printed = map Warn (filter malformed subs)"
    "ld = fold (\<lambda>sub ld. snd (process_submission M now ld sub)) subs []"
    by (rule process_submissions_Inr)
  with M c o that show ?thesis by simp
qed

lemma results_have_no_skipped_assignment:
  assumes "scored_assignment M now aid = None"
  shows "\<forall>r \<in> set (results_of
    (fold (\<lambda>sub ld. snd (process_submission M now ld sub)) subs [])). scores r aid = None"
proof
  fix r
  assume "r \<in> set (results_of (fold (\<lambda>sub ld. snd (process_submission M now ld sub)) subs []))"
  then obtain k l where
    "(k, l) \<in> set (fold (\<lambda>sub ld. snd (process_submission M now ld sub)) subs [])"
    "r = summary l"
    using results_of_mem by blast
  moreover have "\<forall>(k, l) \<in> set (fold (\<lambda>sub ld. snd (process_submission M now ld sub)) subs []).
    assignmentScores l aid = None"
    by (rule no_score_for_skipped_assignment [OF assms]) simp
  ultimately show "scores r aid = None"
    by (auto simp: summary_def)
qed

text \<open>
  Unless the recorded percentage is 0, lines 83 to 95 keep the best score: a first score is
  added to the totals, a better one replaces the contribution of the recorded one, and a
  score that is not better changes nothing.
\<close>

lemma record_score_best_wins:
  assumes "assignmentScores l aid \<noteq> Some 0"
  shows "record_score a aid sc l =
    (case assignmentScores l aid of
       None \<Rightarrow>
         l\<lparr>assignmentScores := (assignmentScores l)(aid \<mapsto> sc / points_possible a),
           totalScore := totalScore l + sc,
           totalPossible := totalPossible l + points_possible a\<rparr>
     | Some p \<Rightarrow>
         if p < sc / points_possible a
         then l\<lparr>assignmentScores := (assignmentScores l)(aid \<mapsto> sc / points_possible a),
                totalScore := totalScore l - p * points_possible a + sc,
                totalPossible := totalPossible l - points_possible a + points_possible a\<rparr>
         else l)"
  using assms
  by (auto simp: record_score_def truthy_num_def Let_def split: option.splits)

lemma record_score_keeps_better:
  "assignmentScores l aid = Some p \<Longrightarrow> p \<noteq> 0 \<Longrightarrow> sc / points_possible a \<le> p \<Longrightarrow>
     record_score a aid sc l = l"
  by (simp add: record_score_def truthy_num_def)

subsection \<open>The run on a store\<close>

lemma read_cell_Some: "read_cell h p = Some c \<longleftrightarrow> p < length h \<and> h ! p = c"
  by (auto simp: read_cell_def)

lemma read_cell_prefix:
  assumes "take n h = h0" and "p < length h0"
  shows "read_cell h p = read_cell h0 p"
proof -
  have "p < n" "p < length h" using assms by auto
  moreover have "h0 ! p = h ! p"
    using assms by (metis nth_take \<open>p < n\<close>)
  ultimately show ?thesis using assms(2) by (simp add: read_cell_def)
qed

lemma ensure_learner_store_frame:
  assumes "ensure_learner_store k ld h = (ld1, h1)" and "n \<le> length h"
    and "\<forall>(k, q) \<in> set ld. n \<le> q"
  shows "n \<le> length h1 \<and> take n h1 = take n h \<and> (\<forall>(k, q) \<in> set ld1. n \<le> q)"
  using assms by (auto simp: ensure_learner_store_def allocate_def split: if_splits)

lemma process_submission_store_cases:
  assumes "process_submission_store m now ld h p = Some (ld', h')"
  obtains (warn) "ld' = ld" "h' = h"
  | (skip) k where "ensure_learner_store k ld h = (ld', h')"
  | (score) k lp c h1 where "ensure_learner_store k ld h = (ld', h1)"
      "map_of ld' k = Some lp" "h' = write_cell lp c h1"
  using assms unfolding process_submission_store_def
  by (auto split: option.splits cell.splits if_splits prod.splits)

lemma process_submission_store_frame:
  assumes "process_submission_store m now ld h p = Some (ld', h')" and "n \<le> length h"
    and "\<forall>(k, q) \<in> set ld. n \<le> q"
  shows "n \<le> length h' \<and> take n h' = take n h \<and> (\<forall>(k, q) \<in> set ld'. n \<le> q)"
  using assms(1)
proof (cases rule: process_submission_store_cases)
  case warn
  with assms show ?thesis by simp
next
  case (skip k)
  then show ?thesis using ensure_learner_store_frame assms(2,3) by blast
next
  case (score k lp c h1)
  have 1: "n \<le> length h1 \<and> take n h1 = take n h \<and> (\<forall>(k, q) \<in> set ld'. n \<le> q)"
    using ensure_learner_store_frame [OF score(1) assms(2,3)] .
  have "(k, lp) \<in> set ld'" using score(2) by (rule map_of_SomeD)
  with 1 have "n \<le> lp" by auto
  with 1 score(3) show ?thesis by (simp add: write_cell_def)
qed

lemma process_submissions_store_frame:
  assumes "process_submissions_store m now ld h ps = Some (r, h')" and "n \<le> length h"
    and "\<forall>(k, q) \<in> set ld. n \<le> q"
  shows "n \<le> length h' \<and> take n h' = take n h"
  using assms
proof (induction ps arbitrary: ld h)
  case Nil
  then show ?case by simp
next
  case (Cons el ps)
  show ?case
  proof (cases el)
    case None
    with Cons.prems show ?thesis by simp
  next
    case (Some p)
    with Cons.prems(1) obtain ld1 h1 where
      s: "process_submission_store m now ld h p = Some (ld1, h1)"
      and r: "process_submissions_store m now ld1 h1 ps = Some (r, h')"
      by (auto split: option.splits)
    have f: "n \<le> length h1 \<and> take n h1 = take n h \<and> (\<forall>(k, q) \<in> set ld1. n \<le> q)"
      using process_submission_store_frame [OF s Cons.prems(2,3)] .
    have "n \<le> length h' \<and> take n h' = take n h1"
      using f by (intro Cons.IH [OF r]) auto
    with f show ?thesis by simp
  qed
qed

lemma getLearnerData_store_frame:
  assumes "getLearnerData_store now c g s h = Some (res, h')"
  shows "length h \<le> length h' \<and> take (length h) h' = h"
proof (cases "h' = h")
  case True
  then show ?thesis by simp
next
  case False
  with assms obtain m r subs where
    "process_submissions_store m now [] h subs = Some (r, h')"
    unfolding getLearnerData_store_def
    by (auto split: if_splits object_arg.splits option.splits cell.splits sum.splits prod.splits)
  then show ?thesis
    using process_submissions_store_frame [of m now "[]" h subs r h' "length h"] by simp
qed

lemma accumulators_at_Nil [simp]: "accumulators_at n h [] []"
  by (simp add: accumulators_at_def)

lemma accumulators_at_keys:
  assumes "accumulators_at n h refs ld"
  shows "map fst refs = map fst ld"
proof -
  have "list_all2 (\<lambda>(k, q) (k', l). k' = k \<and> n \<le> q \<and> read_cell h q = Some (LearnerCell l)) refs ld"
    using assms by (simp add: accumulators_at_def)
  then show ?thesis
    by (induction refs ld rule: list_all2_induct) auto
qed

lemma accumulators_at_has_learner:
  assumes "accumulators_at n h refs ld"
  shows "has_learner refs k = has_learner ld k"
proof -
  have "fst ` set refs = fst ` set ld"
    using accumulators_at_keys [OF assms] by (metis set_map)
  then show ?thesis by (simp add: has_learner_def)
qed

lemma accumulators_at_bound:
  assumes "accumulators_at n h refs ld" and "(k, q) \<in> set refs"
  shows "n \<le> q \<and> q < length h"
proof -
  from assms(2) obtain i where i: "i < length refs" "refs ! i = (k, q)"
    by (auto simp: in_set_conv_nth)
  from assms(1) have "list_all2 (\<lambda>(k, q) (k', l). k' = k \<and> n \<le> q \<and> read_cell h q = Some (LearnerCell l))
        refs ld"
    by (simp add: accumulators_at_def)
  from list_all2_nthD [OF this i(1)] i(2) show ?thesis
    by (auto simp: read_cell_Some split: prod.splits)
qed

lemma accumulators_at_ensure:
  assumes "accumulators_at n h refs ld" and "n \<le> length h"
    and "ensure_learner_store k refs h = (refs1, h1)"
  shows "accumulators_at n h1 refs1 (ensure_learner k ld) \<and> n \<le> length h1
    \<and> take n h1 = take n h \<and> has_learner refs1 k"
proof (cases "has_learner refs k")
  case True
  then have "has_learner ld k"
    by (simp add: accumulators_at_has_learner [OF assms(1)])
  with True assms show ?thesis
    by (auto simp: ensure_learner_store_def ensure_learner_def)
next
  case False
  then have new: "refs1 = refs @ [(k, length h)]" "h1 = h @ [LearnerCell (new_learner k)]"
    using assms(3) by (auto simp: ensure_learner_store_def allocate_def)
  have v: "ensure_learner k ld = ld @ [(k, new_learner k)]"
    using False by (simp add: ensure_learner_def accumulators_at_has_learner [OF assms(1)])
  have old: "list_all2 (\<lambda>(k, q) (k', l). k' = k \<and> n \<le> q \<and> read_cell h1 q = Some (LearnerCell l))
        refs ld"
    using assms(1) unfolding accumulators_at_def new
    by (auto elim!: list_all2_mono simp: read_cell_Some nth_append)
  have fresh: "length h \<notin> snd ` set refs"
    using accumulators_at_bound [OF assms(1)] by force
  have "accumulators_at n h1 refs1 (ensure_learner k ld)"
    unfolding accumulators_at_def v new(1)
    using old fresh assms(1,2)
    by (auto simp: accumulators_at_def new(2) read_cell_Some list_all2_appendI)
  then show ?thesis
    using assms(2) new by (simp add: has_learner_def)
qed

lemma list_all2_write_other:
  assumes "list_all2 (\<lambda>(k, q) (k', l). k' = k \<and> n \<le> q \<and> read_cell h q = Some (LearnerCell l)) refs ld"
    and "lp \<notin> snd ` set refs"
  shows "list_all2 (\<lambda>(k, q) (k', l). k' = k \<and> n \<le> q \<and> read_cell (write_cell lp c h) q = Some (LearnerCell l))
    refs ld"
  using assms
  by (induction refs ld rule: list_all2_induct) (auto simp: read_cell_Some write_cell_def)

lemma accumulators_at_modify:
  assumes "accumulators_at n h refs ld" and "map_of refs k = Some lp"
  shows "\<exists>l. read_cell h lp = Some (LearnerCell l) \<and> n \<le> lp
    \<and> accumulators_at n (write_cell lp (LearnerCell (f l)) h) refs (modify_learner k f ld)"
proof -
  have "list_all2 (\<lambda>(k, q) (k', l). k' = k \<and> n \<le> q \<and> read_cell h q = Some (LearnerCell l)) refs ld"
    and "distinct (map snd refs)"
    using assms(1) by (simp_all add: accumulators_at_def)
  then have "\<exists>l. read_cell h lp = Some (LearnerCell l) \<and> n \<le> lp
    \<and> list_all2 (\<lambda>(k, q) (k', l'). k' = k \<and> n \<le> q
          \<and> read_cell (write_cell lp (LearnerCell (f l)) h) q = Some (LearnerCell l'))
        refs (modify_learner k f ld)"
    using assms(2)
  proof (induction refs ld rule: list_all2_induct)
    case Nil
    then show ?case by simp
  next
    case (Cons x refs y ld)
    obtain k1 q1 where x: "x = (k1, q1)" by (cases x)
    obtain k2 l2 where y: "y = (k2, l2)" by (cases y)
    from Cons.hyps(1) x y have head: "k2 = k1" "n \<le> q1" "read_cell h q1 = Some (LearnerCell l2)"
      by auto
    from Cons.prems(1) x have d: "q1 \<notin> snd ` set refs" "distinct (map snd refs)"
      by auto
    show ?case
    proof (cases "k1 = k")
      case True
      with Cons.prems(2) x have lp: "lp = q1" by simp
      have tail: "list_all2 (\<lambda>(k, q) (k', l'). k' = k \<and> n \<le> q
          \<and> read_cell (write_cell lp (LearnerCell (f l2)) h) q = Some (LearnerCell l')) refs ld"
        using list_all2_write_other [OF Cons.hyps(2)] d(1) lp by blast
      have "read_cell (write_cell lp (LearnerCell (f l2)) h) q1 = Some (LearnerCell (f l2))"
        using head(3) lp by (simp add: read_cell_Some write_cell_def)
      with tail head True lp x y show ?thesis by auto
    next
      case False
      with Cons.prems(2) x have m: "map_of refs k = Some lp" by simp
      from Cons.IH [OF d(2) m] obtain l where l: "read_cell h lp = Some (LearnerCell l)" "n \<le> lp"
        "list_all2 (\<lambda>(k, q) (k', l'). k' = k \<and> n \<le> q
          \<and> read_cell (write_cell lp (LearnerCell (f l)) h) q = Some (LearnerCell l'))
        refs (modify_learner k f ld)"
        by blast
      have "lp \<in> snd ` set refs"
        using map_of_SomeD [OF m] by force
      with d(1) have "q1 \<noteq> lp" by auto
      then have "read_cell (write_cell lp (LearnerCell (f l)) h) q1 = Some (LearnerCell l2)"
        using head(3) by (simp add: read_cell_Some write_cell_def)
      with l head False x y show ?thesis by auto
    qed
  qed
  then show ?thesis
    using assms(1) by (auto simp: accumulators_at_def)
qed

lemma accumulators_at_results:
  assumes "accumulators_at n h refs ld"
  shows "results_of_store h refs = Some (results_of ld)"
proof -
  have "list_all2 (\<lambda>(k, q) (k', l). k' = k \<and> n \<le> q \<and> read_cell h q = Some (LearnerCell l)) refs ld"
    using assms by (simp add: accumulators_at_def)
  then show ?thesis
    by (induction refs ld rule: list_all2_induct) auto
qed

lemma has_learner_map_of:
  "has_learner refs k \<Longrightarrow> \<exists>lp. map_of refs k = Some lp"
  by (induction refs) (auto simp: has_learner_def)

lemma assignment_at_Some:
  "assignment_at h p = Some a \<longleftrightarrow> read_cell h p = Some (AssignmentCell a)"
  by (auto simp: assignment_at_def split: option.splits cell.splits)

lemma submission_at_Some:
  assumes "submission_at h p = Some sub"
  obtains sref where "read_cell h p = Some (SubmissionCell (learner_id sub) (assignment_id sub) sref)"
    and "sref = None \<and> submission sub = None
      \<or> (\<exists>bp body. sref = Some bp \<and> read_cell h bp = Some (SubmittedCell body)
            \<and> submission sub = Some body)"
  using assms unfolding submission_at_def
  by (auto split: option.splits cell.splits)

lemma scored_assignment_at:
  assumes "assignments_at h0 refs assignmentMap"
  shows "(case refs k of
            None \<Rightarrow> scored_assignment assignmentMap now k = None
          | Some ap \<Rightarrow> \<exists>a. read_cell h0 ap = Some (AssignmentCell a) \<and> assignmentMap k = Some a)"
  using assms [unfolded assignments_at_def, rule_format, of k]
  by (cases "refs k") (auto simp: scored_assignment_def assignment_at_Some)

lemma process_submission_store_refines:
  assumes h0: "take (length h0) h = h0"
    and sub: "submission_at h0 p = Some sub"
    and idx: "assignments_at h0 refs assignmentMap"
    and acc: "accumulators_at (length h0) h lrefs ld"
  shows "\<exists>lrefs' h'. process_submission_store refs now lrefs h p = Some (lrefs', h')
    \<and> accumulators_at (length h0) h' lrefs' (snd (process_submission assignmentMap now ld sub))
    \<and> take (length h0) h' = h0"
proof -
  let ?n = "length h0"
  have n: "?n \<le> length h"
    using h0 by (metis length_take min.cobounded1 min.commute)
  have stable: "read_cell h q = Some c" if "read_cell h0 q = Some c" for q c
    using read_cell_prefix [OF h0, of q] that by (simp add: read_cell_Some)
  from sub obtain sref where
    cell: "read_cell h0 p = Some (SubmissionCell (learner_id sub) (assignment_id sub) sref)"
    and body: "sref = None \<and> submission sub = None
      \<or> (\<exists>bp body. sref = Some bp \<and> read_cell h0 bp = Some (SubmittedCell body)
            \<and> submission sub = Some body)"
    by (rule submission_at_Some)
  have cell': "read_cell h p = Some (SubmissionCell (learner_id sub) (assignment_id sub) sref)"
    using cell by (rule stable)
  have mal: "malformed sub \<longleftrightarrow>
    \<not> truthy_id (learner_id sub) \<or> \<not> truthy_id (assignment_id sub) \<or> sref = None"
    using body by (auto simp: malformed_def)
  show ?thesis
  proof (cases rule: process_submission_cases [of sub assignmentMap now ld])
    case warn
    with mal cell' acc h0 show ?thesis
      by (simp add: process_submission_store_def)
  next
    case (skip k aid b)
    with body obtain bp where bp: "sref = Some bp" "read_cell h0 bp = Some (SubmittedCell b)"
      by auto
    obtain lrefs1 h1 where e: "ensure_learner_store k lrefs h = (lrefs1, h1)"
      by (cases "ensure_learner_store k lrefs h")
    from accumulators_at_ensure [OF acc n e]
    have 1: "accumulators_at ?n h1 lrefs1 (ensure_learner k ld)" "?n \<le> length h1"
      "take ?n h1 = take ?n h" "has_learner lrefs1 k"
      by simp_all
    from 1(4) obtain lp where lp: "map_of lrefs1 k = Some lp"
      using has_learner_map_of by blast
    have h1: "take ?n h1 = h0" using 1(3) h0 by simp
    have stable1: "read_cell h1 q = Some c" if "read_cell h0 q = Some c" for q c
      using read_cell_prefix [OF h1, of q] that by (simp add: read_cell_Some)
    have "process_submission_store refs now lrefs h p = Some (lrefs1, h1)"
    proof (cases "refs aid")
      case None
      with skip mal cell' e lp bp show ?thesis
        by (simp add: process_submission_store_def)
    next
      case (Some ap)
      with scored_assignment_at [OF idx, where k = aid and now = now] obtain a where
        a: "read_cell h0 ap = Some (AssignmentCell a)" "assignmentMap aid = Some a"
        by auto
      with skip(5) have "date_gt (due_at a) (Some now) \<or> points_possible a = 0"
        by (auto simp: scored_assignment_def split: if_splits)
      with Some skip mal cell' e lp bp stable1 [OF a(1)] show ?thesis
        by (auto simp: process_submission_store_def)
    qed
    with 1(1) h1 skip(6) show ?thesis by simp
  next
    case (score k aid b a)
    with body obtain bp where bp: "sref = Some bp" "read_cell h0 bp = Some (SubmittedCell b)"
      by auto
    obtain lrefs1 h1 where e: "ensure_learner_store k lrefs h = (lrefs1, h1)"
      by (cases "ensure_learner_store k lrefs h")
    from accumulators_at_ensure [OF acc n e]
    have 1: "accumulators_at ?n h1 lrefs1 (ensure_learner k ld)" "?n \<le> length h1"
      "take ?n h1 = take ?n h" "has_learner lrefs1 k"
      by simp_all
    from 1(4) obtain lp where lp: "map_of lrefs1 k = Some lp"
      using has_learner_map_of by blast
    have h1: "take ?n h1 = h0" using 1(3) h0 by simp
    have stable1: "read_cell h1 q = Some c" if "read_cell h0 q = Some c" for q c
      using read_cell_prefix [OF h1, of q] that by (simp add: read_cell_Some)
    from score(5) obtain ap where ap: "refs aid = Some ap" "read_cell h0 ap = Some (AssignmentCell a)"
      and due: "\<not> date_gt (due_at a) (Some now)" "points_possible a \<noteq> 0"
      using scored_assignment_at [OF idx, where k = aid and now = now]
      by (auto simp: scored_assignment_def split: option.splits if_splits)
    let ?f = "record_score a aid (effective_score a b)"
    from accumulators_at_modify [OF 1(1) lp, of ?f] obtain l where
      l: "read_cell h1 lp = Some (LearnerCell l)" "?n \<le> lp"
      "accumulators_at ?n (write_cell lp (LearnerCell (?f l)) h1) lrefs1
         (modify_learner k ?f (ensure_learner k ld))"
      by blast
    have run: "process_submission_store refs now lrefs h p =
      Some (lrefs1, write_cell lp (LearnerCell (?f l)) h1)"
      using score mal cell' e lp bp ap due stable1 [OF ap(2)] stable1 [OF bp(2)] l(1)
      by (auto simp: process_submission_store_def)
    have "take ?n (write_cell lp (LearnerCell (?f l)) h1) = h0"
      using h1 l(2) by (simp add: write_cell_def)
    with run l(3) score(6) show ?thesis by simp
  qed
qed

lemma values_at_Cons:
  "values_at f (el # ps) = Some xs \<longleftrightarrow>
     (\<exists>p y ys. el = Some p \<and> f p = Some y \<and> values_at f ps = Some ys \<and> xs = y # ys)"
  by (cases el) (auto split: option.splits)

lemma elements_at_Some:
  "elements_at f (Some p # ps) = Some xs \<longleftrightarrow>
     (\<exists>y ys. f p = Some y \<and> elements_at f ps = Some ys \<and> xs = Element y # ys)"
  by (auto split: option.splits)

lemma elements_at_None:
  "elements_at f (None # ps) = Some xs \<longleftrightarrow>
     (\<exists>ys. elements_at f ps = Some ys \<and> xs = Nullish # ys)"
  by (auto split: option.splits)

text \<open>
  The loop on a store and the loop on values end alike: with the same error, or with
  references that hold the accumulators; the given store is the prefix of the store left.
\<close>

lemma process_submissions_store_refines:
  assumes "take (length h0) h = h0"
    and "elements_at (submission_at h0) ps = Some els"
    and "assignments_at h0 refs assignmentMap"
    and "accumulators_at (length h0) h lrefs ld"
  shows "\<exists>r h'. process_submissions_store refs now lrefs h ps = Some (r, h')
    \<and> take (length h0) h' = h0
    \<and> (case snd (process_submissions assignmentMap now ld els) of
          Inl e \<Rightarrow> r = Inl e
        | Inr ld' \<Rightarrow> (\<exists>lrefs'. r = Inr lrefs' \<and> accumulators_at (length h0) h' lrefs' ld'))"
  using assms
proof (induction ps arbitrary: els h lrefs ld)
  case Nil
  then show ?case by simp
next
  case (Cons el ps)
  show ?case
  proof (cases el)
    case None
    with Cons.prems(2) obtain rest where "els = Nullish # rest"
      unfolding None elements_at_None by blast
    with None Cons.prems(1) show ?thesis
      by (simp add: process_submissions_Nullish del: process_submissions.simps)
  next
    case (Some p)
    with Cons.prems(2) obtain sub rest where
      sub: "submission_at h0 p = Some sub" "elements_at (submission_at h0) ps = Some rest"
        "els = Element sub # rest"
      unfolding Some elements_at_Some by blast
    from process_submission_store_refines [OF Cons.prems(1) sub(1) Cons.prems(3,4), of now]
    obtain lrefs1 h1 where
      s: "process_submission_store refs now lrefs h p = Some (lrefs1, h1)"
        "accumulators_at (length h0) h1 lrefs1 (snd (process_submission assignmentMap now ld sub))"
        "take (length h0) h1 = h0"
      by blast
    from Cons.IH [OF s(3) sub(2) Cons.prems(3) s(2)]
    obtain r h' where
      r: "process_submissions_store refs now lrefs1 h1 ps = Some (r, h')"
        "take (length h0) h' = h0"
        "case snd (process_submissions assignmentMap now
            (snd (process_submission assignmentMap now ld sub)) rest) of
          Inl e \<Rightarrow> r = Inl e
        | Inr ld' \<Rightarrow> (\<exists>lrefs'. r = Inr lrefs' \<and> accumulators_at (length h0) h' lrefs' ld')"
      by blast
    have "snd (process_submissions assignmentMap now ld els) =
      snd (process_submissions assignmentMap now
            (snd (process_submission assignmentMap now ld sub)) rest)"
      unfolding sub(3) process_submissions_Element by (simp split: prod.splits)
    with s(1) r Some show ?thesis
      by simp
  qed
qed

lemma index_assignments_store_refines:
  assumes "values_at (assignment_at h) ps = Some as"
    and "assignments_at h refs assignmentMap"
  shows "case index_assignments assignmentMap as of
           Inl e \<Rightarrow> index_assignments_store h refs ps = Some (Inl e)
         | Inr assignmentMap' \<Rightarrow>
             (\<exists>refs'. index_assignments_store h refs ps = Some (Inr refs')
                \<and> assignments_at h refs' assignmentMap')"
  using assms
proof (induction ps arbitrary: as refs assignmentMap)
  case Nil
  then show ?case by simp
next
  case (Cons el ps)
  from Cons.prems(1) obtain p a rest where el: "el = Some p" and
    a: "assignment_at h p = Some a" "values_at (assignment_at h) ps = Some rest" "as = a # rest"
    unfolding values_at_Cons by blast
  have cell: "read_cell h p = Some (AssignmentCell a)"
    using a(1) by (simp add: assignment_at_Some)
  show ?case
  proof (cases "points_possible a < 0")
    case True
    with cell a(3) el show ?thesis by simp
  next
    case False
    have "assignments_at h (refs(id_assignment a \<mapsto> p)) (assignmentMap(id_assignment a \<mapsto> a))"
      using Cons.prems(2) a(1) by (simp add: assignments_at_def)
    then have ih: "case index_assignments (assignmentMap(id_assignment a \<mapsto> a)) rest of
           Inl e \<Rightarrow> index_assignments_store h (refs(id_assignment a \<mapsto> p)) ps = Some (Inl e)
         | Inr assignmentMap' \<Rightarrow>
             (\<exists>refs'. index_assignments_store h (refs(id_assignment a \<mapsto> p)) ps = Some (Inr refs')
                \<and> assignments_at h refs' assignmentMap')"
      by (rule Cons.IH [OF a(2)])
    have l: "index_assignments assignmentMap as =
      index_assignments (assignmentMap(id_assignment a \<mapsto> a)) rest"
      using False a(3) by simp
    have r: "index_assignments_store h refs (el # ps) =
      index_assignments_store h (refs(id_assignment a \<mapsto> p)) ps"
      using False cell el by simp
    show ?thesis
      unfolding l r by (rule ih)
  qed
qed

lemma getLearnerData_store_refines:
  assumes c: "object_arg_at (course_at h) courseInfo = Some c"
    and g: "object_arg_at (group_at h) assignmentGroup = Some g"
    and s: "array_arg_at h learnerSubmissions = Some s"
  shows "\<exists>h'. getLearnerData_store now courseInfo assignmentGroup learnerSubmissions h =
    Some (snd (getLearnerData now c g s), h')"
proof -
  have tc: "typeof_object courseInfo = typeof_object c"
    using c by (auto simp: object_arg_at_def typeof_object_def split: object_arg.splits option.splits)
  have tg: "typeof_object assignmentGroup = typeof_object g"
    using g by (auto simp: object_arg_at_def typeof_object_def split: object_arg.splits option.splits)
  have ts: "isArray_store h learnerSubmissions = isArray s"
    using s by (auto simp: array_arg_at_def isArray_store_def isArray_def
        split: object_arg.splits option.splits cell.splits)
  show ?thesis
  proof (cases "\<not> typeof_object c \<or> \<not> typeof_object g \<or> \<not> isArray s")
    case True
    then have "c = NotObject \<or> g = NotObject \<or> s = NotArray"
      by (auto simp: typeof_object_def isArray_def split: object_arg.splits array_arg.splits)
    then have "snd (getLearnerData now c g s) = Inl InvalidInputType"
      by (simp add: getLearnerData_invalid_types)
    moreover have "getLearnerData_store now courseInfo assignmentGroup learnerSubmissions h =
      Some (Inl InvalidInputType, h)"
      using True tc tg ts by (auto simp: getLearnerData_store_def)
    ultimately show ?thesis by simp
  next
    case False
    then have ok: "typeof_object courseInfo" "typeof_object assignmentGroup"
      "isArray_store h learnerSubmissions"
      using tc tg ts by simp_all
    from ok(3) s obtain sp ps subs where sp: "learnerSubmissions = Object sp"
      "read_cell h sp = Some (ArrayCell ps)" "elements_at (submission_at h) ps = Some subs"
      "s = Array subs"
      by (auto simp: array_arg_at_def isArray_store_def
          split: object_arg.splits option.splits cell.splits)
    show ?thesis
    proof (cases "\<exists>cp gp. courseInfo = Object cp \<and> assignmentGroup = Object gp")
      case nulls: False
      with ok(1,2) have n: "courseInfo = NullValue \<or> assignmentGroup = NullValue"
        "courseInfo \<noteq> NotObject" "assignmentGroup \<noteq> NotObject"
        by (cases courseInfo; cases assignmentGroup; auto simp: typeof_object_def)+
      then have "c = NullValue \<and> g \<noteq> NotObject \<or> g = NullValue \<and> c \<noteq> NotObject"
        using c g by (auto simp: object_arg_at_def split: object_arg.splits option.splits)
      then have "snd (getLearnerData now c g s) = Inl TypeError"
        using sp(4) by (simp add: getLearnerData_null)
      moreover have "getLearnerData_store now courseInfo assignmentGroup learnerSubmissions h =
        Some (Inl TypeError, h)"
        using n ok
        by (cases courseInfo; cases assignmentGroup)
          (auto simp: getLearnerData_store_def sp(1))
      ultimately show ?thesis by simp
    next
      case True
      then obtain cp gp where p: "courseInfo = Object cp" "assignmentGroup = Object gp"
        by blast
      from c p(1) obtain cv where cv: "read_cell h cp = Some (CourseCell cv)" "c = Object cv"
        by (auto simp: object_arg_at_def course_at_def split: option.splits cell.splits)
      from g p(2) obtain cid arr refs as where gv: "read_cell h gp = Some (GroupCell cid arr)"
        "read_cell h arr = Some (ArrayCell refs)" "values_at (assignment_at h) refs = Some as"
        "g = Object \<lparr>course_id = cid, assignments = as\<rparr>"
        by (auto simp: object_arg_at_def group_at_def split: option.splits cell.splits)
      show ?thesis
      proof (cases "cid \<noteq> id_course cv")
        case True
        then show ?thesis
          using ok p sp cv gv by (simp add: getLearnerData_store_def getLearnerData_objects)
      next
        case same: False
        have e: "assignments_at h Map.empty Map.empty"
          by (simp add: assignments_at_def)
        show ?thesis
        proof (cases "index_assignments Map.empty as")
          case (Inl err)
          with index_assignments_store_refines [OF gv(3) e]
          have "index_assignments_store h Map.empty refs = Some (Inl err)" by simp
          with Inl same show ?thesis
            using ok p sp cv gv by (simp add: getLearnerData_store_def getLearnerData_objects)
        next
          case (Inr M)
          with index_assignments_store_refines [OF gv(3) e] obtain R where
            R: "index_assignments_store h Map.empty refs = Some (Inr R)" "assignments_at h R M"
            by auto
          have "\<exists>r h'. process_submissions_store R now [] h ps = Some (r, h')
            \<and> take (length h) h' = h
            \<and> (case snd (process_submissions M now [] subs) of
                  Inl e \<Rightarrow> r = Inl e
                | Inr ld' \<Rightarrow> (\<exists>lrefs'. r = Inr lrefs' \<and> accumulators_at (length h) h' lrefs' ld'))"
            by (rule process_submissions_store_refines [OF _ sp(3) R(2)]) simp_all
          then obtain r h' where
            run: "process_submissions_store R now [] h ps = Some (r, h')"
            and rel: "case snd (process_submissions M now [] subs) of
                  Inl e \<Rightarrow> r = Inl e
                | Inr ld' \<Rightarrow> (\<exists>lrefs'. r = Inr lrefs' \<and> accumulators_at (length h) h' lrefs' ld')"
            by blast
          obtain printed res where v: "process_submissions M now [] subs = (printed, res)"
            by (cases "process_submissions M now [] subs")
          show ?thesis
          proof (cases res)
            case (Inl err)
            with rel v have "r = Inl err" by simp
            with run R(1) Inr Inl v same show ?thesis
              using ok p sp cv gv by (simp add: getLearnerData_store_def getLearnerData_objects)
          next
            case loop: (Inr ld')
            with rel v obtain lrefs where
              lrefs: "r = Inr lrefs" "accumulators_at (length h) h' lrefs ld'"
              by auto
            have "results_of_store h' lrefs = Some (results_of ld')"
              using lrefs(2) by (rule accumulators_at_results)
            with run R(1) Inr loop lrefs(1) v same show ?thesis
              using ok p sp cv gv by (simp add: getLearnerData_store_def getLearnerData_objects)
          qed
        qed
      qed
    qed
  qed
qed

subsection \<open>Evaluation\<close>

lemmas run_defs = getLearnerData_def typeof_object_def isArray_def process_element_def
  process_submission_def malformed_def truthy_id_def truthy_num_def ensure_learner_def
  has_learner_def new_learner_def scored_assignment_def effective_score_def record_score_def
  summary_def

lemmas store_defs = getLearnerData_store_def typeof_object_def isArray_store_def read_cell_def
  allocate_def write_cell_def ensure_learner_store_def process_submission_store_def
  truthy_id_def truthy_num_def has_learner_def new_learner_def effective_score_def
  record_score_def summary_def

text \<open>The run of lines 207 to 213, at any time from the last due date on.\<close>

lemma example_run:
  assumes "1697328000000 \<le> now"
  shows "getLearnerData now (Object example_courseInfo) (Object example_assignmentGroup)
      (Array example_learnerSubmissions) =
    ([], Inr [\<lparr>id_summary = 101, avg = 5 / 6, scores = [2 \<mapsto> 4 / 5, 1 \<mapsto> 9 / 10]\<rparr>,
              \<lparr>id_summary = 102, avg = 41 / 50, scores = [1 \<mapsto> 17 / 20, 3 \<mapsto> 4 / 5]\<rparr>,
              \<lparr>id_summary = 103, avg = 3 / 4, scores = [2 \<mapsto> 3 / 4]\<rparr>])"
  using assms
  by (simp add: example_courseInfo_def example_assignmentGroup_def example_learnerSubmissions_def
      run_defs fun_upd_twist)

text \<open>The error of line 13 is thrown for exactly the arguments that fail the test of line 10.\<close>

lemma invalid_input_type_iff:
  "snd (getLearnerData now c g s) = Inl InvalidInputType \<longleftrightarrow>
     c = NotObject \<or> g = NotObject \<or> s = NotArray"
proof (cases "c = NotObject \<or> g = NotObject \<or> s = NotArray")
  case True
  then show ?thesis by (simp add: getLearnerData_invalid_types)
next
  case False
  then obtain subs where s: "s = Array subs" by (cases s) auto
  show ?thesis
  proof (cases "\<exists>c' g'. c = Object c' \<and> g = Object g'")
    case True
    then show ?thesis
      using False s
      by (auto simp: getLearnerData_objects
          dest: index_assignments_no_type_error process_submissions_Inl
          split: sum.splits if_splits prod.splits)
  next
    case nulls: False
    with False have "c = NullValue \<and> g \<noteq> NotObject \<or> g = NullValue \<and> c \<noteq> NotObject"
      by (cases c; cases g) auto
    then show ?thesis
      using False s by (simp add: getLearnerData_null)
  qed
qed

text \<open>
  A malformed element whose properties can be read is skipped: it changes nothing in what the
  call returns or throws. When all elements are such, and the course, the group and its
  assignments are accepted, the call returns normally and the console shows one warning for
  each malformed element, in the order of the list.
\<close>

lemma snd_skip_malformed:
  assumes "malformed x"
  shows "snd (process_submissions m now ld (xs @ Element x # ys)) =
    snd (process_submissions m now ld (xs @ ys))"
proof (cases xs rule: elements_cases)
  case (elements subs)
  have "snd (process_submission m now l x) = l" for l
    by (simp add: process_submission_malformed [OF assms])
  then show ?thesis
    unfolding elements process_submissions_append process_submissions_Element
    by (simp split: prod.splits)
next
  case (nullish subs rest)
  then show ?thesis
    by (simp only: append_assoc append_Cons process_submissions_upto_nullish)
qed

lemma malformed_object_skipped:
  assumes "malformed x"
  shows "snd (getLearnerData now c g (Array (xs @ Element x # ys))) =
      snd (getLearnerData now c g (Array (xs @ ys)))
    \<and> (course_id gr = id_course co \<and> (\<forall>a \<in> set (assignments gr). 0 \<le> points_possible a) \<longrightarrow>
        (\<exists>out. getLearnerData now (Object co) (Object gr) (Array (map Element (us @ x # vs))) =
           (map Warn (filter malformed us) @ Warn x # map Warn (filter malformed vs), Inr out)))"
proof (intro conjI impI)
  show "snd (getLearnerData now c g (Array (xs @ Element x # ys))) =
    snd (getLearnerData now c g (Array (xs @ ys)))"
  proof (cases "\<exists>c' g'. c = Object c' \<and> g = Object g'")
    case True
    then obtain c' g' where o: "c = Object c'" "g = Object g'" by blast
    have "snd (case p of (printed, Inl e) \<Rightarrow> (printed @ [ConsoleError e], Inl e)
                | (printed, Inr ld) \<Rightarrow> (printed, Inr (results_of ld))) =
      (case snd p of Inl e \<Rightarrow> Inl e | Inr ld \<Rightarrow> Inr (results_of ld))"
      for p :: "console_line list \<times> (error + learner_map)"
      by (cases p) (simp split: sum.splits)
    then show ?thesis
      unfolding o getLearnerData_objects
      by (simp add: snd_skip_malformed [OF assms] split: sum.splits)
  next
    case False
    then consider "c = NotObject \<or> g = NotObject"
      | "c = NullValue \<and> g \<noteq> NotObject \<or> g = NullValue \<and> c \<noteq> NotObject"
      by (cases c; cases g) auto
    then show ?thesis
    proof cases
      case 1
      then show ?thesis by (auto simp: getLearnerData_invalid_types)
    next
      case 2
      then show ?thesis by (simp add: getLearnerData_null)
    qed
  qed
next
  assume ok: "course_id gr = id_course co \<and> (\<forall>a \<in> set (assignments gr). 0 \<le> points_possible a)"
  then obtain M where "index_assignments Map.empty (assignments gr) = Inr M"
    using index_assignments_valid by blast
  with ok assms show "\<exists>out. getLearnerData now (Object co) (Object gr)
      (Array (map Element (us @ x # vs))) =
           (map Warn (filter malformed us) @ Warn x # map Warn (filter malformed vs), Inr out)"
    unfolding getLearnerData_elements by simp
qed

section \<open>The claims\<close>

text \<open>
  C1, where the code departs from the claim. Line 83 asks \<^verbatim>\<open>!learner.assignmentScores[id]\<close>
  to find out whether the assignment has a recorded percentage, and line 87 asks the same to
  decide whether the earlier contribution is taken back; a recorded percentage of 0 is falsy.
  After a submission scored 0, a second submission of the same learner for the same assignment
  is added on top: \<open>totalPossible\<close> holds the 100 points twice, and the average is 50 / 200
  where the one best submission gives 50 / 100.
\<close>

theorem zero_percentage_counted_twice:
  "snd (process_submissions
         [1 \<mapsto> \<lparr>id_assignment = 1, due_at = Some 100, points_possible = 100\<rparr>] 200 []
         [Element \<lparr>learner_id = Some 101, assignment_id = Some 1,
            submission = Some \<lparr>submitted_at = Some 50, score = 0\<rparr>\<rparr>,
          Element \<lparr>learner_id = Some 101, assignment_id = Some 1,
            submission = Some \<lparr>submitted_at = Some 60, score = 50\<rparr>\<rparr>])
     = Inr [(101, \<lparr>id_learner = 101, totalScore = 50, totalPossible = 200,
               assignmentScores = [1 \<mapsto> 1 / 2]\<rparr>)]
   \<and> getLearnerData 200 (Object \<lparr>id_course = Some 1\<rparr>)
       (Object \<lparr>course_id = Some 1, assignments =
          [\<lparr>id_assignment = 1, due_at = Some 100, points_possible = 100\<rparr>]\<rparr>)
       (Array [Element \<lparr>learner_id = Some 101, assignment_id = Some 1,
                 submission = Some \<lparr>submitted_at = Some 50, score = 0\<rparr>\<rparr>,
               Element \<lparr>learner_id = Some 101, assignment_id = Some 1,
                 submission = Some \<lparr>submitted_at = Some 60, score = 50\<rparr>\<rparr>])
     = ([], Inr [\<lparr>id_summary = 101, avg = 1 / 4, scores = [1 \<mapsto> 1 / 2]\<rparr>])"
  by (simp add: run_defs)


theorem zero_percentage_counted_twice_witness:
  "snd (getLearnerData 200 (Object \<lparr>id_course = Some 1\<rparr>)
       (Object \<lparr>course_id = Some 1, assignments =
          [\<lparr>id_assignment = 1, due_at = Some 100, points_possible = 100\<rparr>]\<rparr>)
       (Array [Element \<lparr>learner_id = Some 101, assignment_id = Some 1,
                 submission = Some \<lparr>submitted_at = Some 50, score = 0\<rparr>\<rparr>,
               Element \<lparr>learner_id = Some 101, assignment_id = Some 1,
                 submission = Some \<lparr>submitted_at = Some 60, score = 50\<rparr>\<rparr>]))
     \<noteq> Inr [\<lparr>id_summary = 101, avg = 1 / 2, scores = [1 \<mapsto> 1 / 2]\<rparr>]"
  using zero_percentage_counted_twice by simp

text \<open>
  C2, where the code departs from the claim, by the defect of C1. The first submission is late
  and its score of 8 falls to 0 under the penalty; the second, scored 80, is then added without
  the first being taken back. The output average is (80 + 100) / (100 + 100 + 100), and the
  average recomputed from the best score of each assignment, each counted once, is
  (80 + 100) / (100 + 100).
\<close>

theorem average_differs_from_recomputation:
  "getLearnerData 200 (Object \<lparr>id_course = Some 1\<rparr>)
       (Object \<lparr>course_id = Some 1, assignments =
          [\<lparr>id_assignment = 1, due_at = Some 100, points_possible = 100\<rparr>,
           \<lparr>id_assignment = 2, due_at = Some 100, points_possible = 100\<rparr>]\<rparr>)
       (Array [Element \<lparr>learner_id = Some 101, assignment_id = Some 1,
                 submission = Some \<lparr>submitted_at = Some 150, score = 8\<rparr>\<rparr>,
               Element \<lparr>learner_id = Some 101, assignment_id = Some 1,
                 submission = Some \<lparr>submitted_at = Some 90, score = 80\<rparr>\<rparr>,
               Element \<lparr>learner_id = Some 101, assignment_id = Some 2,
                 submission = Some \<lparr>submitted_at = Some 90, score = 100\<rparr>\<rparr>])
     = ([], Inr [\<lparr>id_summary = 101, avg = 3 / 5, scores = [1 \<mapsto> 4 / 5, 2 \<mapsto> 1]\<rparr>])
   \<and> (4 / 5 * 100 + 1 * 100) / (100 + 100) = (9 / 10 :: real)"
  by (simp add: run_defs)


theorem average_differs_from_recomputation_witness:
  "snd (getLearnerData 200 (Object \<lparr>id_course = Some 1\<rparr>)
       (Object \<lparr>course_id = Some 1, assignments =
          [\<lparr>id_assignment = 1, due_at = Some 100, points_possible = 100\<rparr>,
           \<lparr>id_assignment = 2, due_at = Some 100, points_possible = 100\<rparr>]\<rparr>)
       (Array [Element \<lparr>learner_id = Some 101, assignment_id = Some 1,
                 submission = Some \<lparr>submitted_at = Some 150, score = 8\<rparr>\<rparr>,
               Element \<lparr>learner_id = Some 101, assignment_id = Some 1,
                 submission = Some \<lparr>submitted_at = Some 90, score = 80\<rparr>\<rparr>,
               Element \<lparr>learner_id = Some 101, assignment_id = Some 2,
                 submission = Some \<lparr>submitted_at = Some 90, score = 100\<rparr>\<rparr>]))
     \<noteq> Inr [\<lparr>id_summary = 101, avg = 9 / 10, scores = [1 \<mapsto> 4 / 5, 2 \<mapsto> 1]\<rparr>]"
  using average_differs_from_recomputation by simp

text \<open>
  C3. A submission handed in strictly after the due date is scored with
  \<open>max 0 (score - 0.1 * points_possible)\<close>, which is not negative; one handed in before or
  exactly at the due date is scored with its raw score. This effective score is the one the
  loop records for a submission that no \<^verbatim>\<open>continue\<close> skips.
\<close>

theorem late_penalty_floor:
  "(submitted_at body = Some t \<and> due_at a = Some d \<and> d < t \<longrightarrow>
      effective_score a body = max 0 (score body - 0.1 * points_possible a)
      \<and> 0 \<le> effective_score a body)
   \<and> (submitted_at body = Some t \<and> due_at a = Some d \<and> t \<le> d \<longrightarrow>
      effective_score a body = score body)
   \<and> (\<not> malformed sub \<and> learner_id sub = Some learnerId \<and> assignment_id sub = Some assignmentId
        \<and> submission sub = Some body
        \<and> scored_assignment assignmentMap currentDate assignmentId = Some a \<longrightarrow>
      snd (process_submission assignmentMap currentDate learnerData sub) =
        modify_learner learnerId (record_score a assignmentId (effective_score a body))
          (ensure_learner learnerId learnerData))"
  by (simp add: effective_score_def process_submission_def)

theorem late_penalty_floor_witness:
  "effective_score \<lparr>id_assignment = 1, due_at = Some 100, points_possible = 100\<rparr>
      \<lparr>submitted_at = Some 101, score = 85\<rparr> = 75
   \<and> effective_score \<lparr>id_assignment = 1, due_at = Some 100, points_possible = 100\<rparr>
      \<lparr>submitted_at = Some 101, score = 4\<rparr> = 0
   \<and> effective_score \<lparr>id_assignment = 1, due_at = Some 100, points_possible = 100\<rparr>
      \<lparr>submitted_at = Some 100, score = 85\<rparr> = 85
   \<and> snd (process_submission
         [1 \<mapsto> \<lparr>id_assignment = 1, due_at = Some 100, points_possible = 100\<rparr>] 200 []
         \<lparr>learner_id = Some 101, assignment_id = Some 1,
            submission = Some \<lparr>submitted_at = Some 101, score = 85\<rparr>\<rparr>)
     = [(101, \<lparr>id_learner = 101, totalScore = 75, totalPossible = 100,
               assignmentScores = [1 \<mapsto> 3 / 4]\<rparr>)]"
proof -
  let ?a = "\<lparr>id_assignment = 1, due_at = Some 100, points_possible = 100\<rparr>"
  let ?late = "\<lparr>submitted_at = Some 101, score = 85\<rparr>"
  let ?sub = "\<lparr>learner_id = Some 101, assignment_id = Some 1, submission = Some ?late\<rparr>"
  have s: "scored_assignment [1 \<mapsto> ?a] 200 1 = Some ?a"
    by (simp add: scored_assignment_def)
  have m: "\<not> malformed ?sub"
    by (simp add: malformed_def truthy_id_def)
  show ?thesis
    using s m
      late_penalty_floor [of ?late 101 ?a 100 ?sub 101 1 "[1 \<mapsto> ?a]" 200 "[]"]
      late_penalty_floor [of "\<lparr>submitted_at = Some 101, score = 4\<rparr>" 101 ?a 100]
      late_penalty_floor [of "\<lparr>submitted_at = Some 100, score = 85\<rparr>" 100 ?a 100]
    by (simp add: ensure_learner_def has_learner_def new_learner_def record_score_def
        truthy_num_def)
qed

text \<open>
  C4, where the code departs from the claim, by the defect of C1. The learner has the
  percentage 0 recorded for the assignment; a further submission with the same percentage is
  not discarded: line 83 takes the recorded 0 for no record, and line 94 adds the points of the
  assignment to \<open>totalPossible\<close> a second time.
\<close>

theorem tie_at_zero_changes_totals:
  "snd (process_submissions
         [1 \<mapsto> \<lparr>id_assignment = 1, due_at = Some 100, points_possible = 100\<rparr>] 200 []
         [Element \<lparr>learner_id = Some 101, assignment_id = Some 1,
            submission = Some \<lparr>submitted_at = Some 50, score = 0\<rparr>\<rparr>])
     = Inr [(101, \<lparr>id_learner = 101, totalScore = 0, totalPossible = 100,
               assignmentScores = [1 \<mapsto> 0]\<rparr>)]
   \<and> snd (process_submission
         [1 \<mapsto> \<lparr>id_assignment = 1, due_at = Some 100, points_possible = 100\<rparr>] 200
         [(101, \<lparr>id_learner = 101, totalScore = 0, totalPossible = 100,
               assignmentScores = [1 \<mapsto> 0]\<rparr>)]
         \<lparr>learner_id = Some 101, assignment_id = Some 1,
            submission = Some \<lparr>submitted_at = Some 60, score = 0\<rparr>\<rparr>)
     = [(101, \<lparr>id_learner = 101, totalScore = 0, totalPossible = 200,
               assignmentScores = [1 \<mapsto> 0]\<rparr>)]"
  by (simp add: run_defs)


theorem tie_at_zero_changes_totals_witness:
  "map (totalPossible \<circ> snd) (snd (process_submission
         [1 \<mapsto> \<lparr>id_assignment = 1, due_at = Some 100, points_possible = 100\<rparr>] 200
         [(101, \<lparr>id_learner = 101, totalScore = 0, totalPossible = 100,
               assignmentScores = [1 \<mapsto> 0]\<rparr>)]
         \<lparr>learner_id = Some 101, assignment_id = Some 1,
            submission = Some \<lparr>submitted_at = Some 60, score = 0\<rparr>\<rparr>))
     = [200]"
  using tie_at_zero_changes_totals by simp

text \<open>
  C5. An assignment enters the computation through the map of lines 26 to 33, which keeps the
  last assignment of an id. When the assignment the map holds for an id is worth 0 points, the
  loop runs as it does on the map without that id, and the call returns and prints exactly
  what it does for the group without the assignments of that id: no total and no average
  feels it. No output record has a percentage under the id. The loop divides by
  \<open>points_possible\<close> only for the assignment that \<open>scored_assignment\<close> yields, and that one
  is never worth 0 points, whatever the map.
\<close>

theorem zero_points_excluded:
  assumes "index_assignments Map.empty (assignments g) = Inr assignmentMap"
    and "assignmentMap assignmentId = Some a" and "points_possible a = 0"
  shows "process_submissions assignmentMap now learnerData subs =
      process_submissions (assignmentMap(assignmentId := None)) now learnerData subs
    \<and> getLearnerData now c (Object g) s =
      getLearnerData now c
        (Object (g\<lparr>assignments := filter (\<lambda>b. id_assignment b \<noteq> assignmentId) (assignments g)\<rparr>)) s
    \<and> (\<forall>printed out. getLearnerData now c (Object g) s = (printed, Inr out) \<longrightarrow>
          (\<forall>r \<in> set out. scores r assignmentId = None))
    \<and> (\<forall>M k b. scored_assignment M now k = Some b \<longrightarrow> points_possible b \<noteq> 0)"
proof (intro conjI allI impI)
  fix M k b
  assume "scored_assignment M now k = Some b"
  then show "points_possible b \<noteq> 0"
    by (auto simp: scored_assignment_def split: option.splits if_splits)
next
  have zero: "scored_assignment assignmentMap now assignmentId = None"
    using assms(2,3) by (simp add: scored_assignment_def)
  have forget: "scored_assignment (assignmentMap(assignmentId := None)) now =
    scored_assignment assignmentMap now"
    using zero by (rule scored_assignment_forget)
  show loop: "process_submissions assignmentMap now ld els =
      process_submissions (assignmentMap(assignmentId := None)) now ld els" for ld els
    using forget by (rule process_submissions_scored [symmetric])
  {
    fix printed out
    assume out: "getLearnerData now c (Object g) s = (printed, Inr out)"
    then obtain co els where cs: "c = Object co" "s = Array els"
      by (cases c; cases s) (auto simp: getLearnerData_invalid_types getLearnerData_null)
    from out [unfolded cs] obtain M subs where
      M: "index_assignments Map.empty (assignments g) = Inr M"
      and o: "out = results_of (fold (\<lambda>sub ld. snd (process_submission M now ld sub)) subs [])"
      by (rule getLearnerData_Inr)
    from M assms(1) have "M = assignmentMap" by simp
    then show "\<forall>r \<in> set out. scores r assignmentId = None"
      unfolding o using results_have_no_skipped_assignment [OF zero] by simp
  }
  show "getLearnerData now c (Object g) s =
      getLearnerData now c
        (Object (g\<lparr>assignments := filter (\<lambda>b. id_assignment b \<noteq> assignmentId) (assignments g)\<rparr>)) s"
  proof (cases "\<exists>co els. c = Object co \<and> s = Array els")
    case True
    then obtain co els where cs: "c = Object co" "s = Array els" by blast
    have e: "Map.empty(assignmentId := None) = (Map.empty :: ident \<rightharpoonup> assignment)"
      by simp
    have idx: "index_assignments Map.empty
        (filter (\<lambda>b. id_assignment b \<noteq> assignmentId) (assignments g)) =
      Inr (assignmentMap(assignmentId := None))"
      using index_assignments_without_id [OF assms(1), of assignmentId]
      by (simp only: e)
    show ?thesis
      unfolding cs getLearnerData_objects
      by (simp add: idx assms(1) loop [symmetric])
  next
    case False
    then consider "c = NotObject \<or> s = NotArray" | els where "c = NullValue" "s = Array els"
      by (cases c; cases s) auto
    then show ?thesis
    proof cases
      case 1
      then show ?thesis by (auto simp: getLearnerData_invalid_types)
    next
      case 2
      then show ?thesis by (simp add: getLearnerData_null)
    qed
  qed
qed

theorem zero_points_excluded_witness:
  "getLearnerData 200 (Object \<lparr>id_course = Some 1\<rparr>)
     (Object \<lparr>course_id = Some 1, assignments =
        [\<lparr>id_assignment = 1, due_at = Some 100, points_possible = 100\<rparr>,
         \<lparr>id_assignment = 1, due_at = Some 100, points_possible = 0\<rparr>,
         \<lparr>id_assignment = 2, due_at = Some 100, points_possible = 100\<rparr>]\<rparr>)
     (Array [Element \<lparr>learner_id = Some 101, assignment_id = Some 1,
               submission = Some \<lparr>submitted_at = Some 50, score = 5\<rparr>\<rparr>,
             Element \<lparr>learner_id = Some 101, assignment_id = Some 2,
               submission = Some \<lparr>submitted_at = Some 50, score = 80\<rparr>\<rparr>])
   = getLearnerData 200 (Object \<lparr>id_course = Some 1\<rparr>)
     (Object \<lparr>course_id = Some 1, assignments =
        [\<lparr>id_assignment = 2, due_at = Some 100, points_possible = 100\<rparr>]\<rparr>)
     (Array [Element \<lparr>learner_id = Some 101, assignment_id = Some 1,
               submission = Some \<lparr>submitted_at = Some 50, score = 5\<rparr>\<rparr>,
             Element \<lparr>learner_id = Some 101, assignment_id = Some 2,
               submission = Some \<lparr>submitted_at = Some 50, score = 80\<rparr>\<rparr>])
  \<and> getLearnerData 200 (Object \<lparr>id_course = Some 1\<rparr>)
     (Object \<lparr>course_id = Some 1, assignments =
        [\<lparr>id_assignment = 1, due_at = Some 100, points_possible = 100\<rparr>,
         \<lparr>id_assignment = 1, due_at = Some 100, points_possible = 0\<rparr>,
         \<lparr>id_assignment = 2, due_at = Some 100, points_possible = 100\<rparr>]\<rparr>)
     (Array [Element \<lparr>learner_id = Some 101, assignment_id = Some 1,
               submission = Some \<lparr>submitted_at = Some 50, score = 5\<rparr>\<rparr>,
             Element \<lparr>learner_id = Some 101, assignment_id = Some 2,
               submission = Some \<lparr>submitted_at = Some 50, score = 80\<rparr>\<rparr>])
   = ([], Inr [\<lparr>id_summary = 101, avg = 4 / 5, scores = [2 \<mapsto> 4 / 5]\<rparr>])"
proof -
  let ?a = "\<lparr>id_assignment = 1, due_at = Some 100, points_possible = 0\<rparr>"
  let ?b = "\<lparr>id_assignment = 2, due_at = Some 100, points_possible = 100\<rparr>"
  let ?g = "\<lparr>course_id = Some 1, assignments =
        [\<lparr>id_assignment = 1, due_at = Some 100, points_possible = 100\<rparr>, ?a, ?b]\<rparr>"
  let ?s = "Array [Element \<lparr>learner_id = Some 101, assignment_id = Some 1,
               submission = Some \<lparr>submitted_at = Some 50, score = 5\<rparr>\<rparr>,
             Element \<lparr>learner_id = Some 101, assignment_id = Some 2,
               submission = Some \<lparr>submitted_at = Some 50, score = 80\<rparr>\<rparr>]"
  have 1: "index_assignments Map.empty (assignments ?g) = Inr [1 \<mapsto> ?a, 2 \<mapsto> ?b]" by simp
  have 2: "[1 \<mapsto> ?a, (2 :: ident) \<mapsto> ?b] 1 = Some ?a" by simp
  have 3: "points_possible ?a = 0" by simp
  have run: "getLearnerData 200 (Object \<lparr>id_course = Some 1\<rparr>) (Object ?g) ?s =
    ([], Inr [\<lparr>id_summary = 101, avg = 4 / 5, scores = [2 \<mapsto> 4 / 5]\<rparr>])"
    by (simp add: run_defs)
  show ?thesis
    using zero_points_excluded [OF 1 2 3, of 200 _ _ "Object \<lparr>id_course = Some 1\<rparr>" ?s] run
    by simp
qed

text \<open>
  C6, where the code departs from the claim. An element that is \<^verbatim>\<open>null\<close> or
  \<^verbatim>\<open>undefined\<close> has none of the three properties, but line 41 reads
  \<^verbatim>\<open>submission.learner_id\<close> before it tests anything: the engine throws a \<open>TypeError\<close>,
  the loop ends without a warning for the element, the elements after it are not looked at
  and the call returns nothing, whatever the elements before it were. A malformed element
  whose properties can be read is skipped as the claim says (\<open>malformed_object_skipped\<close>).
\<close>

theorem nullish_element_aborts:
  assumes "course_id g = id_course c"
    and "index_assignments Map.empty (assignments g) = Inr assignmentMap"
  shows "getLearnerData now (Object c) (Object g) (Array (map Element subs @ Nullish # rest)) =
    (map Warn (filter malformed subs) @ [ConsoleError TypeError], Inl TypeError)"
  using assms
  by (simp add: getLearnerData_objects process_submissions_upto_nullish
      del: process_submissions.simps)

theorem nullish_element_aborts_witness:
  "getLearnerData 200 (Object \<lparr>id_course = Some 1\<rparr>)
     (Object \<lparr>course_id = Some 1,
        assignments = [\<lparr>id_assignment = 1, due_at = Some 100, points_possible = 100\<rparr>]\<rparr>)
     (Array [Element \<lparr>learner_id = Some 101, assignment_id = Some 1,
               submission = Some \<lparr>submitted_at = Some 50, score = 85\<rparr>\<rparr>,
             Nullish])
   = ([ConsoleError TypeError], Inl TypeError)
   \<and> getLearnerData 200 (Object \<lparr>id_course = Some 1\<rparr>)
     (Object \<lparr>course_id = Some 1,
        assignments = [\<lparr>id_assignment = 1, due_at = Some 100, points_possible = 100\<rparr>]\<rparr>)
     (Array [Element \<lparr>learner_id = Some 101, assignment_id = Some 1,
               submission = Some \<lparr>submitted_at = Some 50, score = 85\<rparr>\<rparr>])
   = ([], Inr [\<lparr>id_summary = 101, avg = 17 / 20, scores = [1 \<mapsto> 17 / 20]\<rparr>])"
proof -
  let ?g = "\<lparr>course_id = Some 1,
        assignments = [\<lparr>id_assignment = 1, due_at = Some 100, points_possible = 100\<rparr>]\<rparr>"
  let ?sub = "\<lparr>learner_id = Some 101, assignment_id = Some 1,
               submission = Some \<lparr>submitted_at = Some 50, score = 85\<rparr>\<rparr>"
  have 1: "course_id ?g = id_course \<lparr>id_course = Some 1\<rparr>" by simp
  have 2: "index_assignments Map.empty (assignments ?g) =
    Inr [1 \<mapsto> \<lparr>id_assignment = 1, due_at = Some 100, points_possible = 100\<rparr>]"
    by simp
  have without: "getLearnerData 200 (Object \<lparr>id_course = Some 1\<rparr>) (Object ?g)
      (Array [Element ?sub]) =
    ([], Inr [\<lparr>id_summary = 101, avg = 17 / 20, scores = [1 \<mapsto> 17 / 20]\<rparr>])"
    by (simp add: run_defs)
  show ?thesis
    using nullish_element_aborts [OF 1 2, of 200 "[?sub]" "[]"] without
    by (simp add: malformed_def truthy_id_def)
qed

text \<open>
  C7. The course and the group are objects and the submissions an array, the arguments
  that line 10 lets pass. When the group's \<^verbatim>\<open>course_id\<close> differs from the course's
  \<^verbatim>\<open>id\<close>, the call throws the error of line 19 and returns nothing. No submission has
  been looked at: the console holds the error line alone, also when the list has malformed
  elements.
\<close>

theorem group_mismatch_aborts:
  "course_id g \<noteq> id_course c \<Longrightarrow>
     getLearnerData now (Object c) (Object g) (Array subs) =
       ([ConsoleError GroupMismatch], Inl GroupMismatch)"
  by (simp add: getLearnerData_objects)

theorem group_mismatch_aborts_witness:
  "course_id \<lparr>course_id = Some 2, assignments = []\<rparr> \<noteq> id_course \<lparr>id_course = Some 1\<rparr>
   \<and> getLearnerData 200 (Object \<lparr>id_course = Some 1\<rparr>)
        (Object \<lparr>course_id = Some 2, assignments = []\<rparr>)
        (Array [Element \<lparr>learner_id = None, assignment_id = Some 1, submission = None\<rparr>])
      = ([ConsoleError GroupMismatch], Inl GroupMismatch)"
  using group_mismatch_aborts [of "\<lparr>course_id = Some 2, assignments = []\<rparr>"
      "\<lparr>id_course = Some 1\<rparr>" 200
      "[Element \<lparr>learner_id = None, assignment_id = Some 1, submission = None\<rparr>]"]
  by simp

text \<open>
  C8, where the code departs from the claim. \<^verbatim>\<open>null\<close> is not a record, but
  \<^verbatim>\<open>typeof null\<close> is \<^verbatim>\<open>'object'\<close>: the test of line 10 lets it pass, and line 18 throws
  the engine's \<open>TypeError\<close> instead of the error of line 13. For every other argument the
  code does what the claim says (\<open>invalid_input_type_iff\<close>).
\<close>

theorem null_course_passes_type_check:
  "getLearnerData now NullValue (Object g) (Array subs) = ([ConsoleError TypeError], Inl TypeError)"
  by (simp add: getLearnerData_null)

theorem null_course_passes_type_check_witness:
  "snd (getLearnerData 200 NullValue (Object \<lparr>course_id = Some 1, assignments = []\<rparr>) (Array []))
     = Inl TypeError
   \<and> snd (getLearnerData 200 NullValue (Object \<lparr>course_id = Some 1, assignments = []\<rparr>) (Array []))
     \<noteq> Inl InvalidInputType"
  using null_course_passes_type_check [of 200 "\<lparr>course_id = Some 1, assignments = []\<rparr>" "[]"]
  by simp

text \<open>
  C9. \<open>assignmentMap\<close> is the map the call has built. A submission for an assignment whose
  due date lies strictly after the clock read at line 23 leaves every accumulator as it is;
  at most it adds the fresh accumulator of lines 51 to 56, with totals 0 and no score. No
  output record has a percentage for that assignment. A learner whose submissions are all
  skipped (malformed, or for an assignment that is unknown, not yet due or worth 0 points)
  has no record in the output.
\<close>

theorem not_yet_due_skipped:
  assumes "index_assignments Map.empty (assignments g) = Inr assignmentMap"
    and "getLearnerData now (Object c) (Object g) (Array subs) = (printed, Inr out)"
  shows "(assignmentMap assignmentId = Some a \<and> due_at a = Some d \<and> now < d \<longrightarrow>
       (\<forall>sub learnerData. assignment_id sub = Some assignmentId \<longrightarrow>
          snd (process_submission assignmentMap now learnerData sub) = learnerData
          \<or> (\<exists>k. learner_id sub = Some k \<and> \<not> has_learner learnerData k
                \<and> snd (process_submission assignmentMap now learnerData sub) =
                    learnerData @ [(k, new_learner k)]))
       \<and> (\<forall>r \<in> set out. scores r assignmentId = None))
    \<and> ((\<forall>sub. Element sub \<in> set subs \<longrightarrow> learner_id sub = Some learnerId \<longrightarrow>
           malformed sub
           \<or> (\<exists>i. assignment_id sub = Some i \<and> scored_assignment assignmentMap now i = None)) \<longrightarrow>
        (\<forall>r \<in> set out. id_summary r \<noteq> learnerId))"
proof -
  obtain M objs where M: "index_assignments Map.empty (assignments g) = Inr M"
    and els: "subs = map Element objs"
    and o: "out = results_of (fold (\<lambda>sub ld. snd (process_submission M now ld sub)) objs [])"
    using assms(2) by (rule getLearnerData_Inr)
  from M assms(1) have MM: "M = assignmentMap" by simp
  have first: "(\<forall>sub learnerData. assignment_id sub = Some assignmentId \<longrightarrow>
          snd (process_submission assignmentMap now learnerData sub) = learnerData
          \<or> (\<exists>k. learner_id sub = Some k \<and> \<not> has_learner learnerData k
                \<and> snd (process_submission assignmentMap now learnerData sub) =
                    learnerData @ [(k, new_learner k)]))
       \<and> (\<forall>r \<in> set out. scores r assignmentId = None)"
    if "assignmentMap assignmentId = Some a" "due_at a = Some d" "now < d"
  proof -
    have none: "scored_assignment assignmentMap now assignmentId = None"
      using that by (simp add: scored_assignment_def)
    show ?thesis
      using skipped_step [OF _ none] results_have_no_skipped_assignment [OF none, of objs]
      unfolding o MM by blast
  qed
  have second: "\<forall>r \<in> set out. id_summary r \<noteq> learnerId"
    if sk: "\<forall>sub. Element sub \<in> set subs \<longrightarrow> learner_id sub = Some learnerId \<longrightarrow>
           malformed sub
           \<or> (\<exists>i. assignment_id sub = Some i \<and> scored_assignment assignmentMap now i = None)"
  proof
    fix r
    assume "r \<in> set out"
    then obtain k l where
      kl: "(k, l) \<in> set (fold (\<lambda>sub ld. snd (process_submission assignmentMap now ld sub)) objs [])"
      "totalPossible l \<noteq> 0" "r = summary l"
      unfolding o MM using results_of_mem by blast
    have sk': "\<forall>sub \<in> set objs. learner_id sub = Some learnerId \<longrightarrow>
           malformed sub
           \<or> (\<exists>i. assignment_id sub = Some i \<and> scored_assignment assignmentMap now i = None)"
      using sk unfolding els by auto
    have "id_learner l = k"
      using keys_are_ids [of "[]" assignmentMap now objs] kl(1) by auto
    moreover have "k = learnerId \<longrightarrow> l = new_learner learnerId"
      using untouched_learner [OF sk', of "[]"] kl(1) by auto
    moreover have "totalPossible (new_learner learnerId) = 0"
      by (simp add: new_learner_def)
    moreover have "id_summary r = id_learner l"
      using kl(3) by (simp add: summary_def)
    ultimately show "id_summary r \<noteq> learnerId"
      using kl(2) by metis
  qed
  from first second show ?thesis by blast
qed

theorem not_yet_due_skipped_witness:
  "getLearnerData 200 (Object \<lparr>id_course = Some 1\<rparr>)
     (Object \<lparr>course_id = Some 1, assignments =
        [\<lparr>id_assignment = 1, due_at = Some 300, points_possible = 100\<rparr>,
         \<lparr>id_assignment = 2, due_at = Some 100, points_possible = 100\<rparr>]\<rparr>)
     (Array [Element \<lparr>learner_id = Some 102, assignment_id = Some 1,
               submission = Some \<lparr>submitted_at = Some 50, score = 90\<rparr>\<rparr>,
             Element \<lparr>learner_id = Some 101, assignment_id = Some 1,
               submission = Some \<lparr>submitted_at = Some 50, score = 70\<rparr>\<rparr>,
             Element \<lparr>learner_id = Some 101, assignment_id = Some 2,
               submission = Some \<lparr>submitted_at = Some 50, score = 80\<rparr>\<rparr>])
   = ([], Inr [\<lparr>id_summary = 101, avg = 4 / 5, scores = [2 \<mapsto> 4 / 5]\<rparr>])
   \<and> snd (process_submission
       [1 \<mapsto> \<lparr>id_assignment = 1, due_at = Some 300, points_possible = 100\<rparr>,
        2 \<mapsto> \<lparr>id_assignment = 2, due_at = Some 100, points_possible = 100\<rparr>] 200 []
       \<lparr>learner_id = Some 102, assignment_id = Some 1,
               submission = Some \<lparr>submitted_at = Some 50, score = 90\<rparr>\<rparr>)
     = [(102, new_learner 102)]"
proof -
  let ?g = "\<lparr>course_id = Some 1, assignments =
        [\<lparr>id_assignment = 1, due_at = Some 300, points_possible = 100\<rparr>,
         \<lparr>id_assignment = 2, due_at = Some 100, points_possible = 100\<rparr>]\<rparr>"
  let ?M = "[1 \<mapsto> \<lparr>id_assignment = 1, due_at = Some 300, points_possible = 100\<rparr>,
        2 \<mapsto> \<lparr>id_assignment = 2, due_at = Some 100, points_possible = 100\<rparr>]"
  let ?subs = "[Element \<lparr>learner_id = Some 102, assignment_id = Some 1,
               submission = Some \<lparr>submitted_at = Some 50, score = 90\<rparr>\<rparr>,
             Element \<lparr>learner_id = Some 101, assignment_id = Some 1,
               submission = Some \<lparr>submitted_at = Some 50, score = 70\<rparr>\<rparr>,
             Element \<lparr>learner_id = Some 101, assignment_id = Some 2,
               submission = Some \<lparr>submitted_at = Some 50, score = 80\<rparr>\<rparr>]"
  have 1: "index_assignments Map.empty (assignments ?g) = Inr ?M" by simp
  have 2: "getLearnerData 200 (Object \<lparr>id_course = Some 1\<rparr>) (Object ?g) (Array ?subs) =
    ([], Inr [\<lparr>id_summary = 101, avg = 4 / 5, scores = [2 \<mapsto> 4 / 5]\<rparr>])"
    by (simp add: run_defs)
  show ?thesis
    using not_yet_due_skipped [OF 1 2, of 1
        "\<lparr>id_assignment = 1, due_at = Some 300, points_possible = 100\<rparr>" 300 102] 2
    by (simp add: run_defs)
qed

text \<open>
  C10. The call changes none of the objects it is given. In the run on a store, whatever the
  call returns or throws, the store it leaves begins with the store it was given, cell for
  cell: the course, the group, its array of assignments and each assignment, the array of
  submissions, each submission and its \<^verbatim>\<open>submission\<close> object are as they were, and the
  only new cells are the accumulators the call itself makes. Where the references hold a
  course \<open>c\<close>, a group \<open>g\<close> and submissions \<open>s\<close>, the run is defined and returns or throws
  what \<open>getLearnerData\<close> does on these values.
\<close>

theorem arguments_not_mutated:
  "(\<forall>res h'. getLearnerData_store now courseInfo assignmentGroup learnerSubmissions h = Some (res, h')
      \<longrightarrow> length h \<le> length h' \<and> take (length h) h' = h)
   \<and> (object_arg_at (course_at h) courseInfo = Some c
        \<and> object_arg_at (group_at h) assignmentGroup = Some g
        \<and> array_arg_at h learnerSubmissions = Some s \<longrightarrow>
      (\<exists>h'. getLearnerData_store now courseInfo assignmentGroup learnerSubmissions h =
         Some (snd (getLearnerData now c g s), h')))"
  using getLearnerData_store_frame getLearnerData_store_refines by blast

theorem arguments_not_mutated_witness:
  "getLearnerData_store 200 (Object 0) (Object 3) (Object 6)
     [CourseCell \<lparr>id_course = Some 1\<rparr>,
      AssignmentCell \<lparr>id_assignment = 1, due_at = Some 100, points_possible = 100\<rparr>,
      ArrayCell [Some 1],
      GroupCell (Some 1) 2,
      SubmittedCell \<lparr>submitted_at = Some 101, score = 85\<rparr>,
      SubmissionCell (Some 101) (Some 1) (Some 4),
      ArrayCell [Some 5, Some 5]]
   = Some (Inr [\<lparr>id_summary = 101, avg = 3 / 4, scores = [1 \<mapsto> 3 / 4]\<rparr>],
     [CourseCell \<lparr>id_course = Some 1\<rparr>,
      AssignmentCell \<lparr>id_assignment = 1, due_at = Some 100, points_possible = 100\<rparr>,
      ArrayCell [Some 1],
      GroupCell (Some 1) 2,
      SubmittedCell \<lparr>submitted_at = Some 101, score = 85\<rparr>,
      SubmissionCell (Some 101) (Some 1) (Some 4),
      ArrayCell [Some 5, Some 5],
      LearnerCell \<lparr>id_learner = 101, totalScore = 75, totalPossible = 100,
        assignmentScores = [1 \<mapsto> 3 / 4]\<rparr>])
  \<and> snd (getLearnerData 200 (Object \<lparr>id_course = Some 1\<rparr>)
      (Object \<lparr>course_id = Some 1, assignments =
         [\<lparr>id_assignment = 1, due_at = Some 100, points_possible = 100\<rparr>]\<rparr>)
      (Array [Element \<lparr>learner_id = Some 101, assignment_id = Some 1,
                submission = Some \<lparr>submitted_at = Some 101, score = 85\<rparr>\<rparr>,
              Element \<lparr>learner_id = Some 101, assignment_id = Some 1,
                submission = Some \<lparr>submitted_at = Some 101, score = 85\<rparr>\<rparr>]))
    = Inr [\<lparr>id_summary = 101, avg = 3 / 4, scores = [1 \<mapsto> 3 / 4]\<rparr>]"
proof -
  let ?h = "[CourseCell \<lparr>id_course = Some 1\<rparr>,
      AssignmentCell \<lparr>id_assignment = 1, due_at = Some 100, points_possible = 100\<rparr>,
      ArrayCell [Some 1],
      GroupCell (Some 1) 2,
      SubmittedCell \<lparr>submitted_at = Some 101, score = 85\<rparr>,
      SubmissionCell (Some 101) (Some 1) (Some 4),
      ArrayCell [Some 5, Some 5]]"
  have run: "getLearnerData_store 200 (Object 0) (Object 3) (Object 6) ?h
   = Some (Inr [\<lparr>id_summary = 101, avg = 3 / 4, scores = [1 \<mapsto> 3 / 4]\<rparr>],
     ?h @ [LearnerCell \<lparr>id_learner = 101, totalScore = 75, totalPossible = 100,
        assignmentScores = [1 \<mapsto> 3 / 4]\<rparr>])"
    by (simp add: store_defs)
  have c: "object_arg_at (course_at ?h) (Object 0) = Some (Object \<lparr>id_course = Some 1\<rparr>)"
    by (simp add: object_arg_at_def course_at_def read_cell_def)
  have g: "object_arg_at (group_at ?h) (Object 3) = Some (Object \<lparr>course_id = Some 1, assignments =
         [\<lparr>id_assignment = 1, due_at = Some 100, points_possible = 100\<rparr>]\<rparr>)"
    by (simp add: object_arg_at_def group_at_def assignment_at_def read_cell_def)
  have s: "array_arg_at ?h (Object 6) = Some (Array [Element \<lparr>learner_id = Some 101, assignment_id = Some 1,
                submission = Some \<lparr>submitted_at = Some 101, score = 85\<rparr>\<rparr>,
              Element \<lparr>learner_id = Some 101, assignment_id = Some 1,
                submission = Some \<lparr>submitted_at = Some 101, score = 85\<rparr>\<rparr>])"
    by (simp add: array_arg_at_def submission_at_def read_cell_def)
  show ?thesis
    using arguments_not_mutated [of 200 "Object 0" "Object 3" "Object 6" ?h, OF ] run c g s
    by auto
qed

end
